theory Spec2Isabelle
  imports Complex_Main
begin

section \<open>Data model\<close>

text \<open>
  The development follows \<^verbatim>\<open>scripts/spartan/World.py\<close>. Python floats are modelled as
  rationals (exact arithmetic), Python ints as \<open>int\<close>. A reference to a \<^verbatim>\<open>Worker\<close> object
  is its position in the registry list \<^verbatim>\<open>World.__workers\<close> (the list is only ever
  appended to), a reference to a \<^verbatim>\<open>Job\<close> object is its position in \<^verbatim>\<open>World.jobs\<close>.
  Calls to the logger are left out; what is computed for a logged text is modelled
  where it can raise.
\<close>

text \<open>
  Modelled from the spec: the liveness state of a node (\<^verbatim>\<open>State\<close> of \<^verbatim>\<open>Worker.py\<close>, which
  is not among the sources): one of Unavailable, Idle, Working.
\<close>

datatype State = UNAVAILABLE | IDLE | WORKING

text \<open>
  Modelled from the spec: the fields of a node (\<^verbatim>\<open>Worker\<close> of \<^verbatim>\<open>Worker.py\<close>) that
  \<^verbatim>\<open>World.py\<close> reads and writes.
\<close>

record Worker =
  uuid :: string
  address :: string
  port :: "int option"
  auth :: "string option"
  master :: bool
  avg_ipm :: "rat option"
  benchmarked :: bool
  state :: State

record Job =
  worker :: nat
  batch_size :: int
  complementary :: bool

record World =
  master_worker :: nat
  total_batch_size :: int
  workers :: "Worker list"
  jobs :: "Job list"
  job_timeout :: int
  initialized :: bool
  verify_remotes :: bool
  thin_client_mode :: bool

text \<open>The request payload: the two entries of the dictionary that \<^verbatim>\<open>World.py\<close> reads.\<close>

record payload =
  payload_batch_size :: int
  n_iter :: int

datatype error =
  IndexError | ZeroDivisionError | KeyError | TypeError | NotBenchmarked
  | InvalidWorkerResponse | WorldAlreadyInitialized

section \<open>Scheduled workers and the initial jobs\<close>

text \<open>
  \<^verbatim>\<open>get_workers\<close>: one pass over the registry. A worker whose stored speed is set and not
  positive has it overwritten by 1, and the \<^verbatim>\<open>continue\<close> that follows leaves it out of
  the list this call returns. The result is the list of references together with the
  registry after the writes.
\<close>

fun get_workers_loop :: "bool \<Rightarrow> nat \<Rightarrow> Worker list \<Rightarrow> nat list \<times> Worker list" where
  "get_workers_loop thin i [] = ([], [])"
| "get_workers_loop thin i (w # ws) =
     (let (filtered, ws') = get_workers_loop thin (Suc i) ws in
      if avg_ipm w \<noteq> None \<and> the (avg_ipm w) \<le> 0 then (filtered, w\<lparr>avg_ipm := Some 1\<rparr> # ws')
      else if master w \<and> thin then (filtered, w # ws')
      else if state w \<noteq> UNAVAILABLE then (i # filtered, w # ws')
      else (filtered, w # ws'))"

definition get_workers :: "World \<Rightarrow> nat list \<times> World" where
  "get_workers w =
     (let (filtered, ws') = get_workers_loop (thin_client_mode w) 0 (workers w)
      in (filtered, w\<lparr>workers := ws'\<rparr>))"

definition size_world :: "World \<Rightarrow> nat \<times> World" where
  "size_world w = (let (filtered, w') = get_workers w in (length filtered, w'))"

definition default_batch_size :: "World \<Rightarrow> error + (int \<times> World)" where
  "default_batch_size w =
     (let (n, w') = size_world w in
      if n = 0 then Inl ZeroDivisionError else Inr (total_batch_size w' div int n, w'))"

definition update_jobs :: "World \<Rightarrow> error + World" where
  "update_jobs w =
     (case default_batch_size (w\<lparr>jobs := []\<rparr>) of
        Inl e \<Rightarrow> Inl e
      | Inr (b, w1) \<Rightarrow>
          (let (filtered, w2) = get_workers w1
           in Inr (w2\<lparr>jobs := map (\<lambda>r. \<lparr>worker = r, batch_size = b, complementary = False\<rparr>) filtered\<rparr>)))"

definition update_world :: "World \<Rightarrow> int \<Rightarrow> error + World" where
  "update_world w t = update_jobs (w\<lparr>total_batch_size := t\<rparr>)"

section \<open>Real-time jobs\<close>

definition is_realtime :: "Worker list \<Rightarrow> Job \<Rightarrow> bool" where
  "is_realtime W j \<longleftrightarrow>
     \<not> (benchmarked (W ! worker j) = False \<or> avg_ipm (W ! worker j) = None)
     \<and> complementary j = False"

definition realtime_jobs :: "Worker list \<Rightarrow> Job list \<Rightarrow> nat list" where
  "realtime_jobs W js = filter (\<lambda>i. is_realtime W (js ! i)) [0..<length js]"

text \<open>The sort key \<^verbatim>\<open>job.worker.avg_ipm\<close>; it is only applied to real-time jobs.\<close>

definition ipm :: "Worker list \<Rightarrow> Job list \<Rightarrow> nat \<Rightarrow> rat" where
  "ipm W js i = the (avg_ipm (W ! worker (js ! i)))"

text \<open>
  Python's \<^verbatim>\<open>sorted\<close> is stable; with \<^verbatim>\<open>reverse=True\<close> the list is reversed, sorted
  and reversed again, so that equal keys keep their order.
\<close>

definition sorted_py :: "('a \<Rightarrow> 'k::linorder) \<Rightarrow> bool \<Rightarrow> 'a list \<Rightarrow> 'a list" where
  "sorted_py key reverse xs = (if reverse then rev (sort_key key (rev xs)) else sort_key key xs)"

definition slowest_realtime_job :: "Worker list \<Rightarrow> Job list \<Rightarrow> error + nat" where
  "slowest_realtime_job W js =
     (case sorted_py (ipm W js) False (realtime_jobs W js) of
        [] \<Rightarrow> Inl IndexError
      | i # _ \<Rightarrow> Inr i)"

definition fastest_realtime_job :: "Worker list \<Rightarrow> Job list \<Rightarrow> error + nat" where
  "fastest_realtime_job W js =
     (case sorted_py (ipm W js) True (realtime_jobs W js) of
        [] \<Rightarrow> Inl IndexError
      | i # _ \<Rightarrow> Inr i)"

text \<open>
  Modelled from the spec: \<^verbatim>\<open>Worker.batch_eta\<close> (\<^verbatim>\<open>Worker.py\<close> is not among the sources),
  the predicted seconds for a request at the node's current ipm, a pure function \<open>eta\<close>
  of that ipm and of the request, taken as a parameter. A node without throughput data
  cannot predict: the call fails.
\<close>

definition batch_eta :: "(rat \<Rightarrow> payload \<Rightarrow> rat) \<Rightarrow> Worker list \<Rightarrow> nat \<Rightarrow> payload \<Rightarrow> error + rat" where
  "batch_eta eta W r p =
     (case avg_ipm (W ! r) of None \<Rightarrow> Inl NotBenchmarked | Some v \<Rightarrow> Inr (eta v p))"

definition job_stall ::
  "(rat \<Rightarrow> payload \<Rightarrow> rat) \<Rightarrow> Worker list \<Rightarrow> Job list \<Rightarrow> nat \<Rightarrow> payload \<Rightarrow> error + rat" where
  "job_stall eta W js r p =
     (case fastest_realtime_job W js of
        Inl e \<Rightarrow> Inl e
      | Inr f \<Rightarrow>
          (let fastest_worker = worker (js ! f) in
           if r = fastest_worker then Inr 0
           else (case batch_eta eta W r p of
                   Inl e \<Rightarrow> Inl e
                 | Inr a \<Rightarrow> (case batch_eta eta W fastest_worker p of
                               Inl e \<Rightarrow> Inl e
                             | Inr b \<Rightarrow> Inr (a - b)))))"

section \<open>The distribution algorithm\<close>

definition get_current_output_size :: "Job list \<Rightarrow> int" where
  "get_current_output_size js = sum_list (map batch_size js)"

text \<open>
  A \<^verbatim>\<open>for\<close> loop whose body may raise: the body is run for each element in turn, from
  the state that the previous run left, and the first exception ends the loop.
\<close>

fun for_each :: "('i \<Rightarrow> 's \<Rightarrow> error + 's) \<Rightarrow> 'i list \<Rightarrow> 's \<Rightarrow> error + 's" where
  "for_each body [] s = Inr s"
| "for_each body (i # is) s =
     (case body i s of Inl e \<Rightarrow> Inl e | Inr s' \<Rightarrow> for_each body is s')"

text \<open>
  The body of the first loop of \<^verbatim>\<open>optimize_jobs\<close>, for the job at position \<open>i\<close>; the
  state is the job list, \<^verbatim>\<open>deferred_images\<close> and \<^verbatim>\<open>images_checked\<close>.
\<close>

fun classify_body ::
  "(rat \<Rightarrow> payload \<Rightarrow> rat) \<Rightarrow> Worker list \<Rightarrow> int \<Rightarrow> int \<Rightarrow> payload \<Rightarrow> nat
     \<Rightarrow> Job list \<times> int \<times> int \<Rightarrow> error + (Job list \<times> int \<times> int)" where
  "classify_body eta W T L p i (js, deferred, checked) =
     (case job_stall eta W js (worker (js ! i)) p of
        Inl e \<Rightarrow> Inl e
      | Inr lag \<Rightarrow>
          if lag < of_int L \<or> lag = 0
          then Inr (js[i := (js ! i)\<lparr>batch_size := payload_batch_size p\<rparr>],
                    deferred, checked + payload_batch_size p)
          else Inr (js[i := (js ! i)\<lparr>complementary := True, batch_size := 0\<rparr>],
                    (if deferred + checked + payload_batch_size p > T then deferred
                     else deferred + payload_batch_size p),
                    checked))"

definition classify_loop ::
  "(rat \<Rightarrow> payload \<Rightarrow> rat) \<Rightarrow> Worker list \<Rightarrow> int \<Rightarrow> int \<Rightarrow> payload \<Rightarrow> nat list
     \<Rightarrow> Job list \<Rightarrow> int \<Rightarrow> int \<Rightarrow> error + (Job list \<times> int \<times> int)" where
  "classify_loop eta W T L p is js deferred checked =
     for_each (classify_body eta W T L p) is (js, deferred, checked)"

text \<open>Redistribution of the deferred images; the result carries \<^verbatim>\<open>images_per_job\<close>.\<close>

definition add_images :: "int \<Rightarrow> nat \<Rightarrow> Job list \<Rightarrow> Job list" where
  "add_images n i js = js[i := (js ! i)\<lparr>batch_size := batch_size (js ! i) + n\<rparr>]"

definition redistribute :: "Worker list \<Rightarrow> int \<Rightarrow> Job list \<Rightarrow> error + (Job list \<times> int option)" where
  "redistribute W deferred js =
     (if deferred > 0 then
        (let rt = realtime_jobs W js in
         if length rt = 0 then Inl ZeroDivisionError
         else (let images_per_job = deferred div int (length rt)
               in Inr (fold (add_images images_per_job) rt js, Some images_per_job)))
      else Inr (js, None))"

text \<open>One pass of the inner \<^verbatim>\<open>for\<close> loop of the remainder handling, with its \<^verbatim>\<open>break\<close>.\<close>

fun round_robin_pass :: "nat list \<Rightarrow> int \<Rightarrow> Job list \<Rightarrow> int \<times> Job list" where
  "round_robin_pass [] r js = (r, js)"
| "round_robin_pass (i # is) r js =
     (if r < 1 then (r, js)
      else round_robin_pass is (r - 1) (add_images 1 i js))"

text \<open>The outer \<^verbatim>\<open>while\<close> loop; \<open>None\<close> is a loop that never ends.\<close>

partial_function (option) round_robin :: "nat list \<Rightarrow> int \<Rightarrow> Job list \<Rightarrow> Job list option" where
  "round_robin rt r js =
     (if r \<ge> 1
      then round_robin rt (fst (round_robin_pass rt r js)) (snd (round_robin_pass rt r js))
      else Some js)"

declare round_robin.simps [code]

definition remainder_handling :: "Worker list \<Rightarrow> int \<Rightarrow> Job list \<Rightarrow> Job list option" where
  "remainder_handling W T js =
     (let remainder_images = T - get_current_output_size js in
      if remainder_images \<ge> 1
      then round_robin (sort_key (\<lambda>i. batch_size (js ! i)) (realtime_jobs W js)) remainder_images js
      else Some js)"

text \<open>\<^verbatim>\<open>int()\<close> of a quotient: truncation towards zero.\<close>

definition py_int :: "rat \<Rightarrow> int" where
  "py_int q = (if 0 \<le> q then \<lfloor>q\<rfloor> else \<lceil>q\<rceil>)"

text \<open>The body of the last loop over the jobs, for the job at position \<open>i\<close>.\<close>

definition backfill_body ::
  "(rat \<Rightarrow> payload \<Rightarrow> rat) \<Rightarrow> Worker list \<Rightarrow> payload \<Rightarrow> int option \<Rightarrow> nat
     \<Rightarrow> Job list \<Rightarrow> error + Job list" where
  "backfill_body eta W p images_per_job i js =
     (if complementary (js ! i) = False then Inr js
      else
        (case slowest_realtime_job W js of
           Inl e \<Rightarrow> Inl e
         | Inr s \<Rightarrow>
        (case batch_eta eta W (worker (js ! s)) p of
           Inl e \<Rightarrow> Inl e
         | Inr slack0 \<Rightarrow>
        (case (case images_per_job of
                 None \<Rightarrow> Inr slack0
               | Some n \<Rightarrow>
                   if payload_batch_size p = 0 then Inl ZeroDivisionError
                   else Inr (slack0 + (slack0 / of_int (payload_batch_size p)) * of_int n)) of
           Inl e \<Rightarrow> Inl e
         | Inr slack_time \<Rightarrow>
        (case batch_eta eta W (worker (js ! i)) (p\<lparr>payload_batch_size := 1\<rparr>) of
           Inl e \<Rightarrow> Inl e
         | Inr secs_per_batch_image \<Rightarrow>
             if secs_per_batch_image = 0 then Inl ZeroDivisionError
             else Inr (js[i := (js ! i)\<lparr>batch_size :=
                                          py_int (slack_time / secs_per_batch_image)\<rparr>]))))))"

definition backfill_loop ::
  "(rat \<Rightarrow> payload \<Rightarrow> rat) \<Rightarrow> Worker list \<Rightarrow> payload \<Rightarrow> int option \<Rightarrow> nat list
     \<Rightarrow> Job list \<Rightarrow> error + Job list" where
  "backfill_loop eta W p images_per_job is js =
     for_each (backfill_body eta W p images_per_job) is js"

text \<open>
  The pruning loop: \<^verbatim>\<open>last\<close> runs from the last position down to 1; position 0 is never
  looked at.
\<close>

fun prune_loop :: "nat \<Rightarrow> Job list \<Rightarrow> Job list" where
  "prune_loop 0 js = js"
| "prune_loop (Suc n) js =
     prune_loop n (if batch_size (js ! Suc n) < 1 then take (Suc n) js @ drop (Suc (Suc n)) js
                   else js)"

definition prune :: "Job list \<Rightarrow> Job list" where
  "prune js = prune_loop (length js - 1) js"

text \<open>
  \<^verbatim>\<open>optimize_jobs\<close> up to, and without, the pruning loop. The outcome is \<open>None\<close> when the
  remainder loop never ends, \<open>Some (Inl e)\<close> when an exception leaves the method, and
  \<open>Some (Inr js)\<close> with the job list otherwise.
\<close>

definition distribute ::
  "(rat \<Rightarrow> payload \<Rightarrow> rat) \<Rightarrow> World \<Rightarrow> payload \<Rightarrow> (error + Job list) option" where
  "distribute eta w p =
     (case classify_loop eta (workers w) (total_batch_size w) (job_timeout w) p
             [0..<length (jobs w)] (jobs w) 0 0 of
        Inl e \<Rightarrow> Some (Inl e)
      | Inr (js1, deferred_images, images_checked) \<Rightarrow>
     (case redistribute (workers w) deferred_images js1 of
        Inl e \<Rightarrow> Some (Inl e)
      | Inr (js2, images_per_job) \<Rightarrow>
     (case remainder_handling (workers w) (total_batch_size w) js2 of
        None \<Rightarrow> None
      | Some js3 \<Rightarrow>
     (case backfill_loop eta (workers w) p images_per_job [0..<length js3] js3 of
        Inl e \<Rightarrow> Some (Inl e)
      | Inr js4 \<Rightarrow> Some (Inr js4)))))"

definition optimize_jobs ::
  "(rat \<Rightarrow> payload \<Rightarrow> rat) \<Rightarrow> World \<Rightarrow> payload \<Rightarrow> (error + World) option" where
  "optimize_jobs eta w p =
     (case distribute eta w p of
        None \<Rightarrow> None
      | Some (Inl e) \<Rightarrow> Some (Inl e)
      | Some (Inr js4) \<Rightarrow> Some (Inr (w\<lparr>jobs := prune js4\<rparr>)))"

section \<open>The benchmark cache\<close>

text \<open>
  The persisted cache \<^verbatim>\<open>workers.json\<close>: absent, not valid JSON, or a document that maps a
  name to an object with number-valued entries.
\<close>

type_synonym info = "string \<rightharpoonup> (string \<rightharpoonup> rat)"

datatype worker_info_file = Absent | Unparsable | Parsed info

text \<open>
  The loop over the scheduled workers when the cache is used: a \<^verbatim>\<open>KeyError\<close> of
  \<^verbatim>\<open>workers_info[worker.uuid]['avg_ipm']\<close> appends the worker to \<^verbatim>\<open>unbenched_workers\<close>.
\<close>

fun load_saved :: "info \<Rightarrow> nat list \<Rightarrow> Worker list \<Rightarrow> nat list \<Rightarrow> Worker list \<times> nat list" where
  "load_saved workers_info [] W unbenched = (W, unbenched)"
| "load_saved workers_info (r # rs) W unbenched =
     (case workers_info (uuid (W ! r)) of
        None \<Rightarrow> load_saved workers_info rs W (unbenched @ [r])
      | Some entry \<Rightarrow>
          (case entry ''avg_ipm'' of
             None \<Rightarrow> load_saved workers_info rs W (unbenched @ [r])
           | Some v \<Rightarrow>
               load_saved workers_info rs
                 (W[r := (W ! r)\<lparr>avg_ipm := Some v, benchmarked := True\<rparr>]) unbenched))"

text \<open>
  \<^verbatim>\<open>benchmark_wrapped\<close> for each unbenched worker. Every thread writes to its own worker
  and all threads are joined before the method goes on, so the state after the join is
  the one of running them in turn. \<open>bench\<close> gives the speed that the measurement of a
  worker returns.
\<close>

definition run_benchmarks :: "(Worker \<Rightarrow> rat) \<Rightarrow> nat list \<Rightarrow> Worker list \<Rightarrow> Worker list" where
  "run_benchmarks bench unbenched W =
     fold (\<lambda>r W'. W'[r := (W' ! r)\<lparr>avg_ipm := Some (bench (W' ! r)), benchmarked := True\<rparr>])
       unbenched W"

text \<open>
  Modelled from the spec: \<^verbatim>\<open>Worker.info\<close> (not among the sources), the cache entry of a
  node: its name mapped to an object that holds \<^verbatim>\<open>avg_ipm\<close>.
\<close>

definition write_info :: "(string \<rightharpoonup> rat) \<Rightarrow> nat list \<Rightarrow> Worker list \<Rightarrow> info \<Rightarrow> info" where
  "write_info benchmark_payload unbenched W workers_info =
     (fold (\<lambda>r m. m(uuid (W ! r) \<mapsto> (case avg_ipm (W ! r) of
                                          None \<Rightarrow> Map.empty
                                        | Some v \<Rightarrow> [''avg_ipm'' \<mapsto> v])))
        unbenched workers_info)
     (''benchmark_payload'' \<mapsto> benchmark_payload)"

text \<open>
  \<^verbatim>\<open>speed_summary\<close>: the registered workers (all of them, scheduled or not) sorted by
  ipm, fastest first, and the sum of their ipm, from which the logged text is made. On
  a worker without ipm the comparison of the sort, the sum and the number format raise
  \<^verbatim>\<open>TypeError\<close>.
\<close>

definition speed_summary :: "World \<Rightarrow> error + (Worker list \<times> rat)" where
  "speed_summary w =
     (if None \<in> avg_ipm ` set (workers w) then Inl TypeError
      else (let workers_copy = sorted_py (\<lambda>x. the (avg_ipm x)) True (workers w)
            in Inr (workers_copy, sum_list (map (\<lambda>x. the (avg_ipm x)) workers_copy))))"

text \<open>
  \<^verbatim>\<open>benchmark\<close>. The result is the world and the cache file after the call, and the
  exception that leaves the call, if any: the one of the summary that is logged at the
  end, after the workers and the file have been written. The branch that loads the
  cache returns before the summary.
\<close>

definition benchmark ::
  "(Worker \<Rightarrow> rat) \<Rightarrow> (string \<rightharpoonup> rat) \<Rightarrow> World \<Rightarrow> worker_info_file \<Rightarrow> bool
     \<Rightarrow> (World \<times> worker_info_file) \<times> error option" where
  "benchmark bench benchmark_payload w file rebenchmark =
     (let (saved, w1, unbenched1) =
            (if rebenchmark
             then (let (ws, w') = get_workers w
                   in (False,
                       w'\<lparr>workers := fold (\<lambda>r W. W[r := (W ! r)\<lparr>benchmarked := False\<rparr>]) ws (workers w')\<rparr>,
                       ws))
             else ((case file of Absent \<Rightarrow> False | _ \<Rightarrow> True), w, []));
          (workers_info, rebenchmark2, w2, unbenched2) =
            (if saved
             then (case file of
                     Parsed i \<Rightarrow> (i, rebenchmark, w1, unbenched1)
                   | _ \<Rightarrow> (let (ws, w') = get_workers w1 in (Map.empty, True, w', ws)))
             else (Map.empty, rebenchmark, w1, unbenched1))
      in if saved \<and> \<not> rebenchmark2
         then (let (ws, w3) = get_workers w2;
                   (W', unbenched3) = load_saved workers_info ws (workers w3) unbenched2
               in ((w3\<lparr>workers := W'\<rparr>, file), None))
         else (let (unbenched3, w3) = get_workers w2;
                   W' = run_benchmarks bench unbenched3 (workers w3);
                   w4 = w3\<lparr>workers := W'\<rparr>
               in ((w4,
                    if length unbenched3 > 0
                    then Parsed (write_info benchmark_payload unbenched3 W' workers_info)
                    else file),
                   (case speed_summary w4 of Inl e \<Rightarrow> Some e | Inr _ \<Rightarrow> None))))"

section \<open>The node registry\<close>

text \<open>
  An entry of the registry document: a dictionary in which a key may be absent
  (\<open>None\<close>) and a present value has the type of the registry format.
\<close>

record entry =
  e_uuid :: "string option"
  e_address :: "string option"
  e_port :: "int option"
  e_auth :: "string option"
  e_use_https :: "bool option"

datatype config_file = NoPath | NotFound | NotJSON | Document "entry list"

text \<open>
  Modelled from the spec: the constructor of \<^verbatim>\<open>Worker\<close> (not among the sources), taken as
  the parameter \<open>new_worker\<close> of the name, address, port, TLS-verify flag and credential;
  \<open>None\<close> is a node that fails its identity check, where the constructor raises
  \<^verbatim>\<open>InvalidWorkerResponse\<close>.
\<close>

type_synonym constructor = "string \<Rightarrow> string \<Rightarrow> int option \<Rightarrow> bool \<Rightarrow> string option \<Rightarrow> Worker option"

definition add_worker ::
  "constructor \<Rightarrow> World \<Rightarrow> string \<Rightarrow> string \<Rightarrow> int option \<Rightarrow> string option \<Rightarrow> error + World" where
  "add_worker new_worker w u a prt au =
     (case new_worker u a prt (verify_remotes w) au of
        None \<Rightarrow> Inl InvalidWorkerResponse
      | Some wk \<Rightarrow> Inr (w\<lparr>workers := workers w @ [wk]\<rparr>))"

fun load_config_loop :: "constructor \<Rightarrow> World \<Rightarrow> entry list \<Rightarrow> error + World" where
  "load_config_loop new_worker w [] = Inr w"
| "load_config_loop new_worker w (e # es) =
     (let use_https = (case e_use_https e of None \<Rightarrow> False | Some b \<Rightarrow> b) in
      case (if use_https
            then (case e_address e of
                    None \<Rightarrow> Inl KeyError
                  | Some a \<Rightarrow> Inr (e\<lparr>e_address := Some (''https://'' @ a)\<rparr>))
            else Inr e) of
        Inl err \<Rightarrow> Inl err
      | Inr e' \<Rightarrow>
          (case e_uuid e' of
             None \<Rightarrow> Inl KeyError
           | Some u \<Rightarrow>
               (case e_address e' of
                  None \<Rightarrow> Inl KeyError
                | Some a \<Rightarrow>
                    (case add_worker new_worker w u a (e_port e') (e_auth e') of
                       Inl err \<Rightarrow>
                         if err = InvalidWorkerResponse then load_config_loop new_worker w es
                         else Inl err
                     | Inr w' \<Rightarrow> load_config_loop new_worker w' es))))"

definition load_config :: "constructor \<Rightarrow> World \<Rightarrow> config_file \<Rightarrow> error + World" where
  "load_config new_worker w config =
     (case config of
        NoPath \<Rightarrow> Inr w
      | NotFound \<Rightarrow> Inr w
      | NotJSON \<Rightarrow> Inr w
      | Document es \<Rightarrow> load_config_loop new_worker w es)"

text \<open>The worker that an accepted entry of the registry becomes.\<close>

definition registered :: "constructor \<Rightarrow> bool \<Rightarrow> entry \<Rightarrow> Worker option" where
  "registered new_worker verify e =
     new_worker (the (e_uuid e))
       (if e_use_https e = Some True then ''https://'' @ the (e_address e) else the (e_address e))
       (e_port e) verify (e_auth e)"

section \<open>Concrete fleets\<close>

text \<open>Predicted seconds for \<open>n\<close> images at \<open>r\<close> ipm: \<open>n / r * 60\<close>.\<close>

definition eta_linear :: "rat \<Rightarrow> payload \<Rightarrow> rat" where
  "eta_linear r p = of_int (payload_batch_size p) / r * 60"

definition node :: "string \<Rightarrow> bool \<Rightarrow> rat option \<Rightarrow> bool \<Rightarrow> Worker" where
  "node u m r b =
     \<lparr>uuid = u, address = ''localhost'', port = None, auth = None, master = m,
      avg_ipm = r, benchmarked = b, state = IDLE\<rparr>"

definition fleet :: "Worker list \<Rightarrow> bool \<Rightarrow> World" where
  "fleet W thin =
     \<lparr>master_worker = 0, total_batch_size = 0, workers = W, jobs = [], job_timeout = 6,
      initialized = False, verify_remotes = True, thin_client_mode = thin\<rparr>"

definition new_job :: "nat \<Rightarrow> int \<Rightarrow> bool \<Rightarrow> Job" where
  "new_job r n c = \<lparr>worker = r, batch_size = n, complementary = c\<rparr>"

text \<open>The fleet of the worked scenario: master and A at 60 ipm, B at 6 ipm.\<close>

definition fleet3 :: World where
  "fleet3 = fleet [node ''master'' True (Some 60) True, node ''A'' False (Some 60) True,
                   node ''B'' False (Some 6) True] False"

text \<open>A fast master and one slow remote node.\<close>

definition fleet2 :: World where
  "fleet2 = fleet [node ''master'' True (Some 60) True, node ''B'' False (Some 6) True] False"

text \<open>A thin client (the master does not take part) with a slow and a fast remote node.\<close>

definition fleet_thin :: World where
  "fleet_thin = fleet [node ''master'' True (Some 60) True, node ''A'' False (Some 6) True,
                       node ''B'' False (Some 60) True] True"

text \<open>A fleet whose remote node has a stored speed of 0.\<close>

definition fleet_zero :: World where
  "fleet_zero = fleet [node ''master'' True (Some 60) True, node ''A'' False (Some 0) True] False"

text \<open>A fleet that has not been benchmarked, and a cache that knows the master only.\<close>

definition fleet_new :: World where
  "fleet_new = fleet [node ''master'' True None False, node ''A'' False None False] False"

definition cache_master :: info where
  "cache_master = [''master'' \<mapsto> [''avg_ipm'' \<mapsto> 60]]"

text \<open>A constructor that accepts every node but the one named \<open>bad\<close>.\<close>

definition accept_but_bad :: constructor where
  "accept_but_bad u a prt v au =
     (if u = ''bad'' then None
      else Some \<lparr>uuid = u, address = a, port = prt, auth = au, master = False,
                 avg_ipm = None, benchmarked = False, state = IDLE\<rparr>)"

definition reg_entry :: "string option \<Rightarrow> string option \<Rightarrow> entry" where
  "reg_entry u a = \<lparr>e_uuid = u, e_address = a, e_port = None, e_auth = None, e_use_https = None\<rparr>"

text \<open>The request of the worked scenario: 9 images, hence a baseline of 3 for each node.\<close>

definition request3 :: World where
  "request3 = fleet3\<lparr>total_batch_size := 9,
                      jobs := [new_job 0 3 False, new_job 1 3 False, new_job 2 3 False]\<rparr>"

definition payload3 :: payload where
  "payload3 = \<lparr>payload_batch_size = 3, n_iter = 1\<rparr>"

text \<open>A request of 2 images to the thin client: a baseline of 1 for each remote node.\<close>

definition request_thin :: World where
  "request_thin = fleet_thin\<lparr>total_batch_size := 2,
                              jobs := [new_job 1 1 False, new_job 2 1 False]\<rparr>"

definition payload1 :: payload where
  "payload1 = \<lparr>payload_batch_size = 1, n_iter = 1\<rparr>"

text \<open>Registry documents: one with a node that is refused, one with an entry without a name.\<close>

definition registry_bad :: "entry list" where
  "registry_bad = [reg_entry (Some ''x'') (Some ''h1''), reg_entry (Some ''bad'') (Some ''h2''),
                   reg_entry (Some ''y'') (Some ''h3'')]"

definition registry_nameless :: "entry list" where
  "registry_nameless = [reg_entry None (Some ''h1''), reg_entry (Some ''y'') (Some ''h3'')]"

section \<open>Notions used in the statements\<close>

text \<open>
  The job at position \<open>t\<close> is real-time and no real-time job has a greater ipm: it is
  a job of a worker with the maximal ipm among the real-time-eligible workers.
\<close>

definition top_job :: "Worker list \<Rightarrow> nat \<Rightarrow> Job list \<Rightarrow> bool" where
  "top_job W t js \<longleftrightarrow> t < length js \<and> is_realtime W (js ! t)
      \<and> (\<forall>k \<in> set (realtime_jobs W js). ipm W js k \<le> ipm W js t)"

text \<open>Two job lists with the same workers and the same complementary flags, in order.\<close>

definition same_flags :: "Job list \<Rightarrow> Job list \<Rightarrow> bool" where
  "same_flags js js' \<longleftrightarrow>
     map worker js' = map worker js \<and> map complementary js' = map complementary js"

text \<open>
  Of two real-time jobs, the earlier one in the job list holds as many images as the
  later one, or one more.
\<close>

definition balanced :: "Worker list \<Rightarrow> Job list \<Rightarrow> bool" where
  "balanced W js \<longleftrightarrow>
     (\<forall>a b. a < b \<and> b < length js \<and> is_realtime W (js ! a) \<and> is_realtime W (js ! b)
        \<longrightarrow> batch_size (js ! b) \<le> batch_size (js ! a)
            \<and> batch_size (js ! a) \<le> batch_size (js ! b) + 1)"

text \<open>The images of the jobs that are not complementary.\<close>

definition realtime_output :: "Job list \<Rightarrow> int" where
  "realtime_output js = sum_list (map batch_size (filter (\<lambda>j. \<not> complementary j) js))"

text \<open>A request of 10 images to the master and the slow node: a baseline of 5.\<close>

definition request2 :: World where
  "request2 = fleet2\<lparr>total_batch_size := 10, jobs := [new_job 0 5 False, new_job 1 5 False]\<rparr>"

definition payload5 :: payload where
  "payload5 = \<lparr>payload_batch_size = 5, n_iter = 1\<rparr>"

text \<open>
  Two nodes with the same ipm, benchmarked flag, liveness state and master flag; name,
  address, port and credential may differ.
\<close>

definition same_node :: "Worker \<Rightarrow> Worker \<Rightarrow> bool" where
  "same_node a b \<longleftrightarrow> avg_ipm a = avg_ipm b \<and> benchmarked a = benchmarked b
      \<and> state a = state b \<and> master a = master b"

text \<open>The fleet of the worked scenario under other names and addresses.\<close>

definition fleet3_renamed :: World where
  "fleet3_renamed = fleet [\<lparr>uuid = ''local'', address = ''127.0.0.1'', port = Some 7860, auth = None,
        master = True, avg_ipm = Some 60, benchmarked = True, state = IDLE\<rparr>,
      \<lparr>uuid = ''X'', address = ''10.0.0.2'', port = Some 7860, auth = Some ''u:p'',
        master = False, avg_ipm = Some 60, benchmarked = True, state = IDLE\<rparr>,
      \<lparr>uuid = ''Y'', address = ''10.0.0.3'', port = None, auth = None,
        master = False, avg_ipm = Some 6, benchmarked = True, state = IDLE\<rparr>] False"


definition request3_renamed :: World where
  "request3_renamed = fleet3_renamed\<lparr>total_batch_size := 9, jobs := jobs request3\<rparr>"


text \<open>
  A slow master and a fast remote node A; and the same fleet, with the same speeds,
  where A is not marked as benchmarked.
\<close>

definition fleet_remote :: World where
  "fleet_remote = fleet [node ''master'' True (Some 6) True, node ''A'' False (Some 60) True] False"

definition fleet_remote_stale :: World where
  "fleet_remote_stale =
     fleet [node ''master'' True (Some 6) True, node ''A'' False (Some 60) False] False"

definition request_remote :: World where
  "request_remote = fleet_remote\<lparr>total_batch_size := 6,
                                  jobs := [new_job 0 3 False, new_job 1 3 False]\<rparr>"

definition request_remote_stale :: World where
  "request_remote_stale = fleet_remote_stale\<lparr>total_batch_size := 6,
                                              jobs := [new_job 0 3 False, new_job 1 3 False]\<rparr>"

section \<open>The remainder loop without real-time jobs\<close>

lemma round_robin_empty_aux:
  assumes "round_robin rt r js = Some y"
  shows "rt = [] \<longrightarrow> r < 1"
proof (rule round_robin.raw_induct [where P = "\<lambda>rt r js y. rt = [] \<longrightarrow> r < 1"])
  show "round_robin rt r js = Some y" by (rule assms)
next
  fix f :: "nat list \<Rightarrow> int \<Rightarrow> Job list \<Rightarrow> Job list option" and rt r js y
  assume ih: "\<And>rt r js y. f rt r js = Some y \<Longrightarrow> rt = [] \<longrightarrow> r < 1"
    and step: "(if 1 \<le> r
                then f rt (fst (round_robin_pass rt r js)) (snd (round_robin_pass rt r js))
                else Some js) = Some y"
  show "rt = [] \<longrightarrow> r < 1"
  proof
    assume e: "rt = []"
    show "r < 1"
    proof (rule ccontr)
      assume "\<not> r < 1"
      with step e have "f [] r js = Some y" by simp
      from ih [OF this] \<open>\<not> r < 1\<close> show False by simp
    qed
  qed
qed

lemma round_robin_empty: "1 \<le> r \<Longrightarrow> round_robin [] r js = None"
  using round_robin_empty_aux [of "[]" r js] by (cases "round_robin [] r js") auto


section \<open>The worked scenario\<close>

lemma scenario_jobs: "update_world fleet3 9 = Inr request3"
  by code_simp

lemma scenario_classified:
  "classify_loop eta_linear (workers request3) 9 6 payload3 [0..<3] (jobs request3) 0 0
     = Inr ([new_job 0 3 False, new_job 1 3 False, new_job 2 0 True], 3, 6)"
  by code_simp

lemma scenario_final:
  "optimize_jobs eta_linear request3 payload3
     = Some (Inr (request3\<lparr>jobs := [new_job 0 5 False, new_job 1 4 False]\<rparr>))"
  by code_simp

text \<open>
  C3. Master and A at 60 ipm, B at 6 ipm, 9 images, baseline 3, tolerance 6 seconds,
  \<open>n / r * 60\<close> predicted seconds: the initial jobs hold 3 images each, the first loop
  marks B (and only B) complementary, and the jobs that survive are the master's with 5
  images and A's with 4, which sum to 9.
\<close>

theorem worked_scenario:
  "update_world fleet3 9 = Inr request3
   \<and> total_batch_size request3 = 9 \<and> job_timeout request3 = 6
   \<and> classify_loop eta_linear (workers request3) 9 6 payload3 [0..<3] (jobs request3) 0 0
       = Inr ([new_job 0 3 False, new_job 1 3 False, new_job 2 0 True], 3, 6)
   \<and> optimize_jobs eta_linear request3 payload3
       = Some (Inr (request3\<lparr>jobs := [new_job 0 5 False, new_job 1 4 False]\<rparr>))
   \<and> get_current_output_size [new_job 0 5 False, new_job 1 4 False] = 9"
proof -
  have "total_batch_size request3 = 9" "job_timeout request3 = 6"
    by (simp_all add: request3_def fleet3_def fleet_def)
  moreover have "get_current_output_size [new_job 0 5 False, new_job 1 4 False] = 9"
    by (simp add: get_current_output_size_def new_job_def)
  ultimately show ?thesis
    using scenario_jobs scenario_classified scenario_final by simp
qed

section \<open>Workers with a stored speed of 0\<close>

text \<open>
  C6. A fleet whose remote node A is idle and has a stored speed of 0: the call of
  \<^verbatim>\<open>get_workers\<close> sets the speed of A to 1 and returns the master only, A is not in the
  list of that call; the next call returns both. \<^verbatim>\<open>update_jobs\<close> calls \<^verbatim>\<open>get_workers\<close>
  twice, so for 4 requested images it divides by 1 and hands 4 images to each of 2 jobs.
\<close>

theorem get_workers_leaves_out_reset_worker:
  "get_workers fleet_zero
     = ([0], fleet_zero\<lparr>workers := [node ''master'' True (Some 60) True,
                                      node ''A'' False (Some 1) True]\<rparr>)
   \<and> 1 \<notin> set (fst (get_workers fleet_zero))
   \<and> fst (get_workers (snd (get_workers fleet_zero))) = [0, 1]
   \<and> map_sum id jobs (update_world fleet_zero 4) = Inr [new_job 0 4 False, new_job 1 4 False]"
  by code_simp

section \<open>Benchmarking with a partial cache\<close>

text \<open>
  C2. A fleet that has not been benchmarked, a valid cache that holds the master but
  not A, no forced re-benchmark: \<^verbatim>\<open>benchmark\<close> returns without an exception, the master
  has the cached speed, and A, whatever its benchmark would measure, is still not
  benchmarked and has no ipm.
\<close>

theorem benchmark_returns_before_unbenched:
  "workers (fst (fst (benchmark bench bp fleet_new (Parsed cache_master) False)))
     = [node ''master'' True (Some 60) True, node ''A'' False None False]
   \<and> snd (benchmark bench bp fleet_new (Parsed cache_master) False) = None"
  by (simp add: benchmark_def get_workers_def fleet_new_def fleet_def node_def cache_master_def)

section \<open>Pruning\<close>

lemma prune_loop_eq:
  "n < length js \<Longrightarrow>
   prune_loop n js
     = take 1 js @ filter (\<lambda>j. \<not> batch_size j < 1) (take n (drop 1 js)) @ drop (Suc n) js"
proof (induction n arbitrary: js)
  case 0
  then show ?case by (cases js) simp_all
next
  case (Suc n)
  let ?js' = "take (Suc n) js @ drop (Suc (Suc n)) js"
  have t: "take (Suc n) (drop 1 js) = take n (drop 1 js) @ [js ! Suc n]"
    using Suc.prems by (simp add: take_Suc_conv_app_nth)
  show ?case
  proof (cases "batch_size (js ! Suc n) < 1")
    case True
    have l: "n < length ?js'" using Suc.prems by simp
    have "prune_loop (Suc n) js = prune_loop n ?js'" using True by simp
    also have "\<dots> = take 1 ?js' @ filter (\<lambda>j. \<not> batch_size j < 1) (take n (drop 1 ?js'))
                     @ drop (Suc n) ?js'"
      by (rule Suc.IH [OF l])
    also have "take 1 ?js' = take 1 js" using Suc.prems by simp
    also have "take n (drop 1 ?js') = take n (drop 1 js)" using Suc.prems
      by (simp add: take_drop min_def)
    also have "drop (Suc n) ?js' = drop (Suc (Suc n)) js" using Suc.prems by simp
    finally show ?thesis using True t by simp
  next
    case False
    have l: "n < length js" using Suc.prems by simp
    have d: "drop (Suc n) js = js ! Suc n # drop (Suc (Suc n)) js"
      using Suc.prems by (simp add: Cons_nth_drop_Suc)
    have "prune_loop (Suc n) js = prune_loop n js" using False by simp
    also have "\<dots> = take 1 js @ filter (\<lambda>j. \<not> batch_size j < 1) (take n (drop 1 js))
                     @ drop (Suc n) js"
      by (rule Suc.IH [OF l])
    finally show ?thesis using False t d by simp
  qed
qed

lemma prune_Cons: "prune (j # js) = j # filter (\<lambda>x. \<not> batch_size x < 1) js"
  by (simp add: prune_def prune_loop_eq)

lemma prune_Nil: "prune [] = []"
  by (simp add: prune_def)

lemma thin_jobs: "update_world fleet_thin 2 = Inr request_thin"
  by code_simp

lemma thin_final:
  "optimize_jobs eta_linear request_thin payload1
     = Some (Inr (request_thin\<lparr>jobs := [new_job 1 0 True, new_job 2 2 False]\<rparr>))"
  by code_simp

lemma thin_first: "\<not> master (workers request_thin ! worker (new_job 1 0 True))"
  by code_simp

text \<open>
  C7, as stated, fails for a thin client: the master has no job, the job at position 0
  is the one of the slow remote node A, and it survives the pruning with 0 images.
\<close>

theorem prune_thin_client_counterexample:
  "update_world fleet_thin 2 = Inr request_thin
   \<and> optimize_jobs eta_linear request_thin payload1
       = Some (Inr (request_thin\<lparr>jobs := [new_job 1 0 True, new_job 2 2 False]\<rparr>))
   \<and> \<not> master (workers request_thin ! worker (new_job 1 0 True))
   \<and> batch_size (new_job 1 0 True) < 1"
  using thin_jobs thin_final thin_first by (simp add: new_job_def)

text \<open>
  C7, amended. When the job list that reaches the pruning loop starts with the master's
  job and holds no other job of the master, \<^verbatim>\<open>optimize_jobs\<close> returns, the jobs that
  survive are exactly the master's job and the jobs with at least 1 image, in their
  order, and the master's job is at position 0.
\<close>

theorem prune_keeps_master_and_work:
  assumes "distribute eta w p = Some (Inr js)" and "js \<noteq> []"
    and "master (workers w ! worker (hd js))"
    and "\<forall>j \<in> set (tl js). \<not> master (workers w ! worker j)"
  shows "\<exists>w'. optimize_jobs eta w p = Some (Inr w')
          \<and> jobs w' = filter (\<lambda>j. master (workers w ! worker j) \<or> \<not> batch_size j < 1) js
          \<and> jobs w' ! 0 = js ! 0"
proof -
  obtain j rest where js: "js = j # rest" using assms(2) by (cases js) auto
  have "filter (\<lambda>j. master (workers w ! worker j) \<or> \<not> batch_size j < 1) rest
          = filter (\<lambda>x. \<not> batch_size x < 1) rest"
    using assms(4) js by (intro filter_cong) auto
  then show ?thesis using assms(1,3) js by (simp add: optimize_jobs_def prune_Cons)
qed

lemma scenario_distribute:
  "distribute eta_linear request3 payload3
     = Some (Inr [new_job 0 5 False, new_job 1 4 False, new_job 2 0 True])"
  by code_simp

lemma scenario_master:
  "master (workers request3 ! worker (hd [new_job 0 5 False, new_job 1 4 False, new_job 2 0 True]))"
  by code_simp

lemma scenario_remotes:
  "\<forall>j \<in> set (tl [new_job 0 5 False, new_job 1 4 False, new_job 2 0 True]).
     \<not> master (workers request3 ! worker j)"
  by (simp add: new_job_def request3_def fleet3_def fleet_def node_def)

theorem prune_keeps_master_and_work_witness:
  "distribute eta_linear request3 payload3
     = Some (Inr [new_job 0 5 False, new_job 1 4 False, new_job 2 0 True])
   \<and> master (workers request3 ! worker (hd [new_job 0 5 False, new_job 1 4 False, new_job 2 0 True]))
   \<and> (\<exists>w'. optimize_jobs eta_linear request3 payload3 = Some (Inr w')
        \<and> jobs w' = filter (\<lambda>j. master (workers request3 ! worker j) \<or> \<not> batch_size j < 1)
                      [new_job 0 5 False, new_job 1 4 False, new_job 2 0 True]
        \<and> jobs w' ! 0 = [new_job 0 5 False, new_job 1 4 False, new_job 2 0 True] ! 0)"
  using prune_keeps_master_and_work [OF scenario_distribute _ scenario_master scenario_remotes]
    scenario_distribute scenario_master
  by blast

section \<open>Loading the registry\<close>

lemma load_config_loop_registers:
  assumes "\<forall>e \<in> set es. e_uuid e \<noteq> None \<and> e_address e \<noteq> None"
  shows "load_config_loop new_worker w es
           = Inr (w\<lparr>workers := workers w
                       @ List.map_filter (registered new_worker (verify_remotes w)) es\<rparr>)"
  using assms
proof (induction es arbitrary: w)
  case Nil
  then show ?case by (simp add: List.map_filter_simps)
next
  case (Cons e es)
  from Cons.prems obtain u a where ua: "e_uuid e = Some u" "e_address e = Some a" by auto
  have rest: "\<forall>e \<in> set es. e_uuid e \<noteq> None \<and> e_address e \<noteq> None" using Cons.prems by simp
  let ?a = "if e_use_https e = Some True then ''https://'' @ a else a"
  have reg: "registered new_worker (verify_remotes w) e
               = new_worker u ?a (e_port e) (verify_remotes w) (e_auth e)"
    using ua by (simp add: registered_def)
  show ?case
  proof (cases "new_worker u ?a (e_port e) (verify_remotes w) (e_auth e)")
    case None
    then have "load_config_loop new_worker w (e # es) = load_config_loop new_worker w es"
      using ua by (cases "e_use_https e") (auto simp: add_worker_def)
    then show ?thesis
      using Cons.IH [OF rest, of w] reg None by (simp add: List.map_filter_simps)
  next
    case (Some wk)
    let ?w' = "w\<lparr>workers := workers w @ [wk]\<rparr>"
    have "load_config_loop new_worker w (e # es) = load_config_loop new_worker ?w' es"
      using ua Some by (cases "e_use_https e") (auto simp: add_worker_def)
    then show ?thesis
      using Cons.IH [OF rest, of ?w'] reg Some by (simp add: List.map_filter_simps)
  qed
qed

text \<open>
  C8, as stated, fails for an entry without a name: the \<^verbatim>\<open>KeyError\<close> of \<^verbatim>\<open>worker['uuid']\<close>
  is not caught, the load ends there and the entry after it is not registered.
\<close>

theorem load_config_nameless_counterexample:
  "load_config accept_but_bad fleet2 (Document registry_nameless) = Inl KeyError"
  by (simp add: load_config_def registry_nameless_def reg_entry_def)

text \<open>
  C8, amended. For a registry document whose entries all carry a name and an address,
  \<^verbatim>\<open>load_config\<close> returns, and the registry grows by exactly the entries that the
  constructor accepts, in their order: an entry that raises \<^verbatim>\<open>InvalidWorkerResponse\<close>
  is skipped and the entries after it are still registered.
\<close>

theorem load_config_skips_invalid:
  assumes "\<forall>e \<in> set es. e_uuid e \<noteq> None \<and> e_address e \<noteq> None"
  shows "load_config new_worker w (Document es)
           = Inr (w\<lparr>workers := workers w
                       @ List.map_filter (registered new_worker (verify_remotes w)) es\<rparr>)"
  using load_config_loop_registers [OF assms] by (simp add: load_config_def)

theorem load_config_skips_invalid_witness:
  "map_sum id (map uuid \<circ> workers) (load_config accept_but_bad fleet2 (Document registry_bad))
     = Inr [''master'', ''B'', ''x'', ''y'']"
proof -
  have h: "\<forall>e \<in> set registry_bad. e_uuid e \<noteq> None \<and> e_address e \<noteq> None"
    by (simp add: registry_bad_def reg_entry_def)
  from load_config_skips_invalid [OF h, of accept_but_bad fleet2] show ?thesis
    by (simp add: List.map_filter_simps registered_def accept_but_bad_def registry_bad_def
        reg_entry_def fleet2_def fleet_def node_def)
qed

section \<open>Sorting\<close>

lemma hd_sort_key_least:
  assumes "xs \<noteq> []"
  shows "hd (sort_key k xs) \<in> set xs \<and> (\<forall>x \<in> set xs. k (hd (sort_key k xs)) \<le> k x)"
proof -
  let ?ys = "sort_key k xs"
  have ne: "?ys \<noteq> []" using assms by (metis length_0_conv length_sort)
  then obtain y ys where ys: "?ys = y # ys" by (cases ?ys) auto
  have st: "set xs = set (y # ys)" using ys by (metis set_sort)
  have "sorted (map k (y # ys))" using sorted_sort_key [of k xs] ys by simp
  then have "\<forall>x \<in> set (y # ys). k y \<le> k x" by auto
  then show ?thesis using ys st by simp
qed

lemma sorted_last_greatest:
  "sorted (map k ys) \<Longrightarrow> x \<in> set ys \<Longrightarrow> k x \<le> k (last ys)"
  by (induction ys) (auto split: if_splits)

lemma hd_sorted_py_reverse_greatest:
  assumes "xs \<noteq> []"
  shows "hd (sorted_py k True xs) \<in> set xs \<and> (\<forall>x \<in> set xs. k x \<le> k (hd (sorted_py k True xs)))"
proof -
  let ?ys = "sort_key k (rev xs)"
  have ne: "?ys \<noteq> []" using assms by (metis length_0_conv length_sort rev_is_Nil_conv)
  have h: "hd (sorted_py k True xs) = last ?ys" using ne by (simp add: sorted_py_def hd_rev)
  have s: "sorted (map k ?ys)" by (rule sorted_sort_key)
  have st: "set ?ys = set xs" by simp
  have m: "last ?ys \<in> set xs" using last_in_set [OF ne] by (simp only: st)
  have "\<forall>x \<in> set xs. k x \<le> k (last ?ys)"
    using sorted_last_greatest [OF s] by simp
  with m h show ?thesis by simp
qed

lemma sorted_py_Nil: "sorted_py k b xs = [] \<longleftrightarrow> xs = []"
  by (simp add: sorted_py_def) (metis length_0_conv length_sort rev_is_Nil_conv)

section \<open>Real-time jobs\<close>

lemma set_realtime_jobs:
  "set (realtime_jobs W js) = {i. i < length js \<and> is_realtime W (js ! i)}"
  by (auto simp: realtime_jobs_def)

lemma distinct_realtime_jobs: "distinct (realtime_jobs W js)"
  by (simp add: realtime_jobs_def)

lemma fastest_realtime_job_Inr:
  assumes "realtime_jobs W js \<noteq> []"
  shows "\<exists>f. fastest_realtime_job W js = Inr f \<and> f \<in> set (realtime_jobs W js)
           \<and> (\<forall>k \<in> set (realtime_jobs W js). ipm W js k \<le> ipm W js f)"
proof -
  let ?s = "sorted_py (ipm W js) True (realtime_jobs W js)"
  have "?s \<noteq> []" using assms by (simp add: sorted_py_Nil)
  then obtain f fs where s: "?s = f # fs" by (cases ?s) auto
  then have "hd ?s = f" by simp
  with hd_sorted_py_reverse_greatest [OF assms, of "ipm W js"] s show ?thesis
    by (simp add: fastest_realtime_job_def)
qed

lemma fastest_realtime_job_Inl:
  "realtime_jobs W js = [] \<Longrightarrow> fastest_realtime_job W js = Inl IndexError"
  by (simp add: fastest_realtime_job_def sorted_py_def)

lemma slowest_realtime_job_Inr:
  assumes "realtime_jobs W js \<noteq> []"
  shows "\<exists>f. slowest_realtime_job W js = Inr f \<and> f \<in> set (realtime_jobs W js)
           \<and> (\<forall>k \<in> set (realtime_jobs W js). ipm W js f \<le> ipm W js k)"
proof -
  let ?s = "sorted_py (ipm W js) False (realtime_jobs W js)"
  have "?s \<noteq> []" using assms by (simp add: sorted_py_Nil)
  then obtain f fs where s: "?s = f # fs" by (cases ?s) auto
  then have "hd (sort_key (ipm W js) (realtime_jobs W js)) = f" by (simp add: sorted_py_def)
  with hd_sort_key_least [OF assms, of "ipm W js"] s show ?thesis
    by (simp add: slowest_realtime_job_def)
qed

lemma slowest_realtime_job_Inl:
  "realtime_jobs W js = [] \<Longrightarrow> slowest_realtime_job W js = Inl IndexError"
  by (simp add: slowest_realtime_job_def sorted_py_def)

text \<open>The lag of a job, in terms of the greatest speed among the real-time jobs.\<close>

lemma job_stall_eq:
  assumes "realtime_jobs W js \<noteq> []"
  shows "job_stall eta W js r p =
           (case avg_ipm (W ! r) of
              None \<Rightarrow> Inl NotBenchmarked
            | Some a \<Rightarrow> Inr (eta a p - eta (Max (ipm W js ` set (realtime_jobs W js))) p))"
proof -
  from fastest_realtime_job_Inr [OF assms] obtain f where
    f: "fastest_realtime_job W js = Inr f" "f \<in> set (realtime_jobs W js)"
       "\<forall>k \<in> set (realtime_jobs W js). ipm W js k \<le> ipm W js f" by blast
  have M: "Max (ipm W js ` set (realtime_jobs W js)) = ipm W js f"
    using f(2,3) by (intro Max_eqI) auto
  from f(2) have "is_realtime W (js ! f)" by (simp add: set_realtime_jobs)
  then obtain b where b: "avg_ipm (W ! worker (js ! f)) = Some b" by (auto simp: is_realtime_def)
  then have bf: "ipm W js f = b" by (simp add: ipm_def)
  show ?thesis
    using f(1) b bf M by (auto simp: job_stall_def batch_eta_def Let_def split: option.splits)
qed

lemma job_stall_Inl:
  "realtime_jobs W js = [] \<Longrightarrow> job_stall eta W js r p = Inl IndexError"
  by (simp add: job_stall_def fastest_realtime_job_Inl)

section \<open>Loops\<close>

lemma for_each_invariant:
  assumes "for_each body is s = Inr s'" and "I s"
    and "\<And>i s s'. i \<in> set is \<Longrightarrow> I s \<Longrightarrow> body i s = Inr s' \<Longrightarrow> I s'"
  shows "I s'"
  using assms
proof (induction "is" arbitrary: s)
  case Nil
  then show ?case by simp
next
  case (Cons i "is")
  from Cons.prems(1) obtain s1 where s1: "body i s = Inr s1" "for_each body is s1 = Inr s'"
    by (auto split: sum.splits)
  have "I s1" using Cons.prems(3) [of i s s1] Cons.prems(2) s1(1) by simp
  moreover have "\<And>i s s'. i \<in> set is \<Longrightarrow> I s \<Longrightarrow> body i s = Inr s' \<Longrightarrow> I s'"
    using Cons.prems(3) by auto
  ultimately show ?case using Cons.IH [OF s1(2)] by blast
qed

lemma for_each_progress:
  assumes "I s"
    and "\<And>i s. i \<in> set is \<Longrightarrow> I s \<Longrightarrow> \<exists>s'. body i s = Inr s' \<and> I s'"
  shows "\<exists>s'. for_each body is s = Inr s' \<and> I s'"
  using assms
proof (induction "is" arbitrary: s)
  case Nil
  then show ?case by simp
next
  case (Cons i "is")
  from Cons.prems(2) [of i s] Cons.prems(1) obtain s1 where s1: "body i s = Inr s1" "I s1"
    by auto
  have "\<And>i s. i \<in> set is \<Longrightarrow> I s \<Longrightarrow> \<exists>s'. body i s = Inr s' \<and> I s'"
    using Cons.prems(2) by auto
  from Cons.IH [OF s1(2) this] obtain s' where "for_each body is s1 = Inr s'" "I s'"
    by auto
  then show ?case using s1 by auto
qed

section \<open>The first loop\<close>

lemma classify_body_shape:
  assumes "classify_body eta W T L p i (js, d, c) = Inr (js', d', c')"
  shows "length js' = length js" and "map worker js' = map worker js"
    and "\<forall>k < length js. complementary (js ! k) \<longrightarrow> complementary (js' ! k)"
    and "\<forall>k < length js. k \<noteq> i \<longrightarrow> js' ! k = js ! k"
proof -
  from assms obtain j where j: "js' = js[i := j]" "worker j = worker (js ! i)"
    "complementary (js ! i) \<longrightarrow> complementary j"
    by (auto split: sum.splits if_splits)
  show "length js' = length js" using j by simp
  show "map worker js' = map worker js"
  proof (cases "i < length js")
    case True
    have "map worker js' = (map worker js)[i := map worker js ! i]"
      using j True by (simp add: map_update)
    then show ?thesis by (simp only: list_update_id)
  next
    case False
    then have "js[i := j] = js" by (simp add: list_update_beyond)
    then show ?thesis using j by simp
  qed
  show "\<forall>k < length js. complementary (js ! k) \<longrightarrow> complementary (js' ! k)"
  proof (intro allI impI)
    fix k assume "k < length js" "complementary (js ! k)"
    then show "complementary (js' ! k)" using j by (cases "k = i") simp_all
  qed
  show "\<forall>k < length js. k \<noteq> i \<longrightarrow> js' ! k = js ! k" using j by simp
qed

lemma ipm_same_workers:
  "map worker js' = map worker js \<Longrightarrow> k < length js \<Longrightarrow> ipm W js' k = ipm W js k"
  by (metis ipm_def length_map nth_map)

lemma worker_same_workers:
  "map worker js' = map worker js \<Longrightarrow> k < length js \<Longrightarrow> worker (js' ! k) = worker (js ! k)"
  by (metis length_map nth_map)

text \<open>The job at position \<open>t\<close> is real-time and no real-time job is faster.\<close>

lemma classify_body_top:
  assumes body: "classify_body eta W T L p i (js, d, c) = Inr (js', d', c')"
    and t: "t < length js" "is_realtime W (js ! t)"
    and top: "\<forall>k \<in> set (realtime_jobs W js). ipm W js k \<le> ipm W js t"
  shows "is_realtime W (js' ! t)"
    and "\<forall>k \<in> set (realtime_jobs W js'). ipm W js' k \<le> ipm W js' t"
proof -
  note sh = classify_body_shape [OF body]
  have rt: "realtime_jobs W js \<noteq> []" using t by (auto simp: set_realtime_jobs dest!: arg_cong [where f = set])
  from t obtain a where a: "avg_ipm (W ! worker (js ! t)) = Some a"
    by (auto simp: is_realtime_def)
  have M: "Max (ipm W js ` set (realtime_jobs W js)) = ipm W js t"
    using t top by (intro Max_eqI) (auto simp: set_realtime_jobs)
  have lag: "job_stall eta W js (worker (js ! t)) p = Inr 0"
    using a M by (simp add: job_stall_eq [OF rt] ipm_def)
  have ct: "\<not> complementary (js' ! t)"
  proof (cases "i = t")
    case True
    then show ?thesis using body lag t by (auto simp: is_realtime_def)
  next
    case False
    then show ?thesis using sh(4) t by (simp add: is_realtime_def)
  qed
  show rt': "is_realtime W (js' ! t)"
    using ct t worker_same_workers [OF sh(2) t(1)] by (simp add: is_realtime_def)
  show "\<forall>k \<in> set (realtime_jobs W js'). ipm W js' k \<le> ipm W js' t"
  proof
    fix k assume "k \<in> set (realtime_jobs W js')"
    then have k: "k < length js" "is_realtime W (js' ! k)"
      using sh(1) by (simp_all add: set_realtime_jobs)
    then have "is_realtime W (js ! k)"
      using sh(3) worker_same_workers [OF sh(2) k(1)] by (auto simp: is_realtime_def)
    then have "ipm W js k \<le> ipm W js t" using top k(1) by (simp add: set_realtime_jobs)
    then show "ipm W js' k \<le> ipm W js' t"
      using ipm_same_workers [OF sh(2)] k(1) t(1) by simp
  qed
qed

lemma job_stall_top:
  assumes t: "t < length js" "is_realtime W (js ! t)"
    and top: "\<forall>k \<in> set (realtime_jobs W js). ipm W js k \<le> ipm W js t"
  shows "job_stall eta W js (worker (js ! t)) p = Inr 0"
proof -
  have rt: "realtime_jobs W js \<noteq> []" using t by (auto simp: set_realtime_jobs dest!: arg_cong [where f = set])
  from t obtain a where a: "avg_ipm (W ! worker (js ! t)) = Some a"
    by (auto simp: is_realtime_def)
  have M: "Max (ipm W js ` set (realtime_jobs W js)) = ipm W js t"
    using t top by (intro Max_eqI) (auto simp: set_realtime_jobs)
  show ?thesis using a M by (simp add: job_stall_eq [OF rt] ipm_def)
qed


lemma classify_loop_top:
  assumes "classify_loop eta W T L p is js d c = Inr (js', d', c')" and "top_job W t js"
  shows "top_job W t js'"
proof -
  have "(\<lambda>s. top_job W t (fst s)) (js', d', c')"
  proof (rule for_each_invariant [where I = "\<lambda>s. top_job W t (fst s)"])
    show "for_each (classify_body eta W T L p) is (js, d, c) = Inr (js', d', c')"
      using assms(1) by (simp add: classify_loop_def)
    show "top_job W t (fst (js, d, c))" using assms(2) by simp
  next
    fix i s s'
    assume "top_job W t (fst s)" and b: "classify_body eta W T L p i s = Inr s'"
    obtain js d c where s: "s = (js, d, c)" by (cases s) auto
    obtain js' d' c' where s': "s' = (js', d', c')" by (cases s') auto
    show "top_job W t (fst s')"
      using classify_body_top [of eta W T L p i js d c js' d' c' t]
        classify_body_shape(1) [of eta W T L p i js d c js' d' c']
        b \<open>top_job W t (fst s)\<close>
      unfolding s s' top_job_def by simp
  qed
  then show ?thesis by simp
qed

section \<open>Steps that only change image counts\<close>

lemma same_flags_refl: "same_flags js js"
  by (simp add: same_flags_def)

lemma same_flags_trans: "same_flags a b \<Longrightarrow> same_flags b c \<Longrightarrow> same_flags a c"
  by (simp add: same_flags_def)

lemma same_flags_length:
  assumes "same_flags js js'"
  shows "length js' = length js"
proof -
  have "length (map worker js') = length (map worker js)"
    using assms by (simp only: same_flags_def)
  then show ?thesis by simp
qed

lemma same_flags_nth:
  assumes "same_flags js js'" and "k < length js"
  shows "worker (js' ! k) = worker (js ! k) \<and> complementary (js' ! k) = complementary (js ! k)"
proof -
  have l: "k < length js'" using assms by (simp add: same_flags_length)
  have "map worker js' ! k = map worker js ! k"
    and "map complementary js' ! k = map complementary js ! k"
    using assms(1) by (simp_all only: same_flags_def)
  then show ?thesis using assms(2) l by simp
qed

lemma same_flags_count_update:
  "same_flags js (js[i := (js ! i)\<lparr>batch_size := n\<rparr>])"
proof (cases "i < length js")
  case True
  have "map worker (js[i := (js ! i)\<lparr>batch_size := n\<rparr>]) = (map worker js)[i := map worker js ! i]"
    and "map complementary (js[i := (js ! i)\<lparr>batch_size := n\<rparr>])
           = (map complementary js)[i := map complementary js ! i]"
    using True by (simp_all add: map_update)
  then show ?thesis by (simp only: same_flags_def list_update_id)
next
  case False
  then have "js[i := (js ! i)\<lparr>batch_size := n\<rparr>] = js" by (simp add: list_update_beyond)
  then show ?thesis by (simp add: same_flags_refl)
qed

lemma same_flags_add_images: "same_flags js (add_images n i js)"
  by (simp add: add_images_def same_flags_count_update)

lemma same_flags_fold_add_images: "same_flags js (fold (add_images n) idxs js)"
proof (induction idxs arbitrary: js)
  case Nil
  show ?case by (simp add: same_flags_refl)
next
  case (Cons i idxs)
  have "same_flags js (fold (add_images n) idxs (add_images n i js))"
    by (rule same_flags_trans [OF same_flags_add_images Cons.IH])
  then show ?case by simp
qed

lemma same_flags_round_robin_pass: "same_flags js (snd (round_robin_pass idxs r js))"
proof (induction idxs arbitrary: r js)
  case Nil
  show ?case by (simp add: same_flags_refl)
next
  case (Cons i idxs)
  show ?case
  proof (cases "r < 1")
    case True
    then show ?thesis by (simp add: same_flags_refl)
  next
    case False
    have "same_flags js (snd (round_robin_pass idxs (r - 1) (add_images 1 i js)))"
      by (rule same_flags_trans [OF same_flags_add_images Cons.IH])
    then show ?thesis using False by simp
  qed
qed

lemma same_flags_round_robin:
  assumes "round_robin rt r js = Some js'"
  shows "same_flags js js'"
proof (rule round_robin.raw_induct [where P = "\<lambda>rt r js js'. same_flags js js'"])
  show "round_robin rt r js = Some js'" by (rule assms)
next
  fix f :: "nat list \<Rightarrow> int \<Rightarrow> Job list \<Rightarrow> Job list option" and rt r js y
  assume ih: "\<And>rt r js y. f rt r js = Some y \<Longrightarrow> same_flags js y"
    and step: "(if 1 \<le> r
                then f rt (fst (round_robin_pass rt r js)) (snd (round_robin_pass rt r js))
                else Some js) = Some y"
  show "same_flags js y"
  proof (cases "1 \<le> r")
    case True
    with step have "same_flags (snd (round_robin_pass rt r js)) y" by (auto intro: ih)
    then show ?thesis using same_flags_trans [OF same_flags_round_robin_pass] by blast
  next
    case False
    with step show ?thesis by (simp add: same_flags_refl)
  qed
qed

lemma same_flags_remainder_handling:
  "remainder_handling W T js = Some js' \<Longrightarrow> same_flags js js'"
  by (auto simp: remainder_handling_def Let_def same_flags_refl
      split: if_splits intro: same_flags_round_robin)

lemma same_flags_redistribute:
  "redistribute W d js = Inr (js', ipj) \<Longrightarrow> same_flags js js'"
  by (auto simp: redistribute_def Let_def same_flags_refl same_flags_fold_add_images
      split: if_splits)

lemma backfill_body_cases:
  assumes "backfill_body eta W p ipj i js = Inr js'"
  shows "js' = js \<or> (\<exists>n. js' = js[i := (js ! i)\<lparr>batch_size := n\<rparr>])"
proof (cases "complementary (js ! i) = False")
  case True
  then show ?thesis using assms by (simp add: backfill_body_def)
next
  case False
  from assms False obtain s where s: "slowest_realtime_job W js = Inr s"
    by (cases "slowest_realtime_job W js") (simp_all add: backfill_body_def)
  from assms False s obtain slack0 where s0: "batch_eta eta W (worker (js ! s)) p = Inr slack0"
    by (cases "batch_eta eta W (worker (js ! s)) p") (simp_all add: backfill_body_def)
  let ?sl = "case ipj of None \<Rightarrow> Inr slack0
             | Some n \<Rightarrow> if payload_batch_size p = 0 then Inl ZeroDivisionError
                 else Inr (slack0 + (slack0 / of_int (payload_batch_size p)) * of_int n)"
  from assms False s s0 obtain slack where sl: "?sl = Inr slack"
    by (cases ?sl) (simp_all add: backfill_body_def)
  from assms False s s0 sl obtain secs where
    se: "batch_eta eta W (worker (js ! i)) (p\<lparr>payload_batch_size := 1\<rparr>) = Inr secs"
    by (cases "batch_eta eta W (worker (js ! i)) (p\<lparr>payload_batch_size := 1\<rparr>)")
       (simp_all add: backfill_body_def)
  from assms False s s0 sl se have "js' = js[i := (js ! i)\<lparr>batch_size := py_int (slack / secs)\<rparr>]"
    by (simp add: backfill_body_def split: if_splits)
  then show ?thesis by blast
qed

lemma same_flags_backfill_body:
  "backfill_body eta W p ipj i js = Inr js' \<Longrightarrow> same_flags js js'"
  using backfill_body_cases [of eta W p ipj i js js']
  by (auto simp: same_flags_refl same_flags_count_update)

lemma same_flags_backfill_loop:
  assumes "backfill_loop eta W p ipj is js = Inr js'"
  shows "same_flags js js'"
proof (rule for_each_invariant [where I = "same_flags js"])
  show "for_each (backfill_body eta W p ipj) is js = Inr js'"
    using assms by (simp add: backfill_loop_def)
  show "same_flags js js" by (rule same_flags_refl)
next
  fix i s s'
  assume "same_flags js s" "backfill_body eta W p ipj i s = Inr s'"
  then show "same_flags js s'"
    using same_flags_trans same_flags_backfill_body by blast
qed

lemma same_flags_is_realtime:
  "same_flags js js' \<Longrightarrow> k < length js \<Longrightarrow> is_realtime W (js' ! k) = is_realtime W (js ! k)"
  using same_flags_nth [of js js' k] by (simp add: is_realtime_def)

lemma same_flags_realtime_jobs:
  assumes "same_flags js js'"
  shows "realtime_jobs W js' = realtime_jobs W js"
  unfolding realtime_jobs_def same_flags_length [OF assms]
  by (rule filter_cong) (simp_all add: same_flags_is_realtime [OF assms])

lemma same_flags_ipm:
  "same_flags js js' \<Longrightarrow> k < length js \<Longrightarrow> ipm W js' k = ipm W js k"
  using ipm_same_workers [of js' js k W] by (simp add: same_flags_def)

lemma same_flags_top_job:
  assumes "same_flags js js'" and "top_job W t js"
  shows "top_job W t js'"
  using assms(2)
  unfolding top_job_def same_flags_realtime_jobs [OF assms(1)] same_flags_length [OF assms(1)]
  by (auto simp: same_flags_is_realtime [OF assms(1)] same_flags_ipm [OF assms(1)]
      set_realtime_jobs)

section \<open>The fastest worker\<close>

lemma distribute_Inr:
  assumes "distribute eta w p = Some (Inr js4)"
  obtains js1 d c js2 ipj js3 where
    "classify_loop eta (workers w) (total_batch_size w) (job_timeout w) p
       [0..<length (jobs w)] (jobs w) 0 0 = Inr (js1, d, c)"
    "redistribute (workers w) d js1 = Inr (js2, ipj)"
    "remainder_handling (workers w) (total_batch_size w) js2 = Some js3"
    "backfill_loop eta (workers w) p ipj [0..<length js3] js3 = Inr js4"
  using assms unfolding distribute_def
  by (auto split: sum.splits option.splits prod.splits)

lemma classify_loop_workers:
  assumes "classify_loop eta W T L p is js d c = Inr (js', d', c')"
  shows "map worker js' = map worker js"
proof -
  have "(\<lambda>s. map worker (fst s) = map worker js) (js', d', c')"
  proof (rule for_each_invariant [where I = "\<lambda>s. map worker (fst s) = map worker js"])
    show "for_each (classify_body eta W T L p) is (js, d, c) = Inr (js', d', c')"
      using assms by (simp add: classify_loop_def)
    show "map worker (fst (js, d, c)) = map worker js" by simp
  next
    fix i s s'
    assume h: "map worker (fst s) = map worker js" and b: "classify_body eta W T L p i s = Inr s'"
    obtain js0 d0 c0 where s: "s = (js0, d0, c0)" by (cases s) auto
    obtain js1 d1 c1 where s': "s' = (js1, d1, c1)" by (cases s') auto
    show "map worker (fst s') = map worker js"
      using classify_body_shape(2) [of eta W T L p i js0 d0 c0 js1 d1 c1] b h
      unfolding s s' by simp
  qed
  then show ?thesis by simp
qed

text \<open>
  C4. A job that is real-time when \<^verbatim>\<open>optimize_jobs\<close> starts and whose worker has the
  maximal ipm among the real-time jobs has a computed lag of 0, is not complementary
  after the first loop, and is not complementary in the job list that the method builds.
\<close>

theorem fastest_worker_immune:
  assumes "top_job (workers w) t (jobs w)"
  shows "job_stall eta (workers w) (jobs w) (worker (jobs w ! t)) p = Inr 0
    \<and> (\<forall>js1 d c. classify_loop eta (workers w) (total_batch_size w) (job_timeout w) p
            [0..<length (jobs w)] (jobs w) 0 0 = Inr (js1, d, c)
          \<longrightarrow> complementary (js1 ! t) = False)
    \<and> (\<forall>js4. distribute eta w p = Some (Inr js4)
          \<longrightarrow> worker (js4 ! t) = worker (jobs w ! t) \<and> complementary (js4 ! t) = False)"
proof -
  have a: "job_stall eta (workers w) (jobs w) (worker (jobs w ! t)) p = Inr 0"
    using assms by (intro job_stall_top) (simp_all add: top_job_def)
  have b: "complementary (js1 ! t) = False"
    if "classify_loop eta (workers w) (total_batch_size w) (job_timeout w) p
            [0..<length (jobs w)] (jobs w) 0 0 = Inr (js1, d, c)" for js1 d c
    using classify_loop_top [OF that assms] by (simp add: top_job_def is_realtime_def)
  have c: "worker (js4 ! t) = worker (jobs w ! t) \<and> complementary (js4 ! t) = False"
    if d: "distribute eta w p = Some (Inr js4)" for js4
  proof -
    from distribute_Inr [OF d] obtain js1 d c js2 ipj js3 where
      1: "classify_loop eta (workers w) (total_batch_size w) (job_timeout w) p
         [0..<length (jobs w)] (jobs w) 0 0 = Inr (js1, d, c)" and
      2: "redistribute (workers w) d js1 = Inr (js2, ipj)" and
      3: "remainder_handling (workers w) (total_batch_size w) js2 = Some js3" and
      4: "backfill_loop eta (workers w) p ipj [0..<length js3] js3 = Inr js4" by blast
    have s: "same_flags js1 js4"
      using same_flags_trans [OF same_flags_trans [OF same_flags_redistribute [OF 2]
        same_flags_remainder_handling [OF 3]] same_flags_backfill_loop [OF 4]] .
    have t0: "t < length (jobs w)" using assms by (simp add: top_job_def)
    have t1: "top_job (workers w) t js1" by (rule classify_loop_top [OF 1 assms])
    then have l1: "t < length js1" by (simp add: top_job_def)
    have t4: "top_job (workers w) t js4" by (rule same_flags_top_job [OF s t1])
    have "worker (js1 ! t) = worker (jobs w ! t)"
      by (rule worker_same_workers [OF classify_loop_workers [OF 1] t0])
    then have "worker (js4 ! t) = worker (jobs w ! t)"
      using same_flags_nth [OF s l1] by simp
    moreover have "complementary (js4 ! t) = False"
      using t4 by (simp add: top_job_def is_realtime_def)
    ultimately show ?thesis by simp
  qed
  from a b c show ?thesis by blast
qed

lemma scenario_top: "top_job (workers request3) 0 (jobs request3)"
  by code_simp

theorem fastest_worker_immune_witness:
  "top_job (workers request3) 0 (jobs request3)
   \<and> job_stall eta_linear (workers request3) (jobs request3) (worker (jobs request3 ! 0)) payload3
       = Inr 0
   \<and> distribute eta_linear request3 payload3
       = Some (Inr [new_job 0 5 False, new_job 1 4 False, new_job 2 0 True])
   \<and> complementary ([new_job 0 5 False, new_job 1 4 False, new_job 2 0 True] ! 0) = False"
  using fastest_worker_immune [OF scenario_top, of eta_linear payload3]
    scenario_top scenario_distribute
  by simp

section \<open>Image counts\<close>

lemma length_add_images: "length (add_images n i js) = length js"
  by (simp add: add_images_def)

lemma count_add_images:
  "k < length js \<Longrightarrow>
     batch_size (add_images n i js ! k) = batch_size (js ! k) + (if k = i then n else 0)"
  by (cases "k = i") (simp_all add: add_images_def)

lemma length_fold_add_images: "length (fold (add_images n) idxs js) = length js"
  by (induction idxs arbitrary: js) (simp_all add: length_add_images)

lemma count_fold_add_images:
  assumes "distinct idxs" and "k < length js"
  shows "batch_size (fold (add_images n) idxs js ! k)
           = batch_size (js ! k) + (if k \<in> set idxs then n else 0)"
  using assms
proof (induction idxs arbitrary: js)
  case Nil
  then show ?case by simp
next
  case (Cons i idxs)
  have "batch_size (fold (add_images n) idxs (add_images n i js) ! k)
          = batch_size (add_images n i js ! k) + (if k \<in> set idxs then n else 0)"
    using Cons.prems by (intro Cons.IH) (simp_all add: length_add_images)
  then show ?case using Cons.prems by (auto simp: count_add_images)
qed

lemma length_round_robin_pass: "length (snd (round_robin_pass idxs r js)) = length js"
  by (induction idxs arbitrary: r js) (simp_all add: length_add_images)

lemma round_robin_pass_counts:
  assumes "distinct idxs" and "0 \<le> r"
  shows "fst (round_robin_pass idxs r js) = r - int (min (nat r) (length idxs))
    \<and> (\<forall>k < length js. batch_size (snd (round_robin_pass idxs r js) ! k)
           = batch_size (js ! k) + (if k \<in> set (take (nat r) idxs) then 1 else 0))"
  using assms
proof (induction idxs arbitrary: r js)
  case Nil
  then show ?case by simp
next
  case (Cons i idxs)
  show ?case
  proof (cases "r < 1")
    case True
    then have "r = 0" using Cons.prems by simp
    then show ?thesis by simp
  next
    case False
    then have r: "1 \<le> r" by simp
    have d: "distinct idxs" "i \<notin> set idxs" using Cons.prems by simp_all
    have r1: "0 \<le> r - 1" using r by simp
    note ih = Cons.IH [OF d(1) r1, of "add_images 1 i js"]
    have n: "nat r = Suc (nat (r - 1))" using r by simp
    have t: "take (nat r) (i # idxs) = i # take (nat (r - 1)) idxs" by (simp add: n)
    have f: "fst (round_robin_pass (i # idxs) r js) = r - int (min (nat r) (length (i # idxs)))"
      using ih r by (simp add: n min_def)
    have c: "batch_size (snd (round_robin_pass (i # idxs) r js) ! k)
           = batch_size (js ! k) + (if k \<in> set (take (nat r) (i # idxs)) then 1 else 0)"
      if k: "k < length js" for k
    proof -
      have "batch_size (snd (round_robin_pass idxs (r - 1) (add_images 1 i js)) ! k)
              = batch_size (add_images 1 i js ! k)
                + (if k \<in> set (take (nat (r - 1)) idxs) then 1 else 0)"
        using ih k by (simp add: length_add_images)
      moreover have "i \<notin> set (take (nat (r - 1)) idxs)" using d(2) by (auto dest: in_set_takeD)
      ultimately show ?thesis using r k unfolding t by (auto simp: count_add_images)
    qed
    from f c show ?thesis by blast
  qed
qed

text \<open>
  With at least one real-time job the remainder loop ends: every job of the list gets
  \<open>r div n\<close> images and the first \<open>r mod n\<close> jobs get one more.
\<close>

lemma round_robin_total:
  assumes "idxs \<noteq> []" and "distinct idxs" and "0 \<le> r"
  shows "\<exists>js'. round_robin idxs r js = Some js' \<and> length js' = length js
    \<and> (\<forall>k < length js. batch_size (js' ! k)
           = batch_size (js ! k) + (if k \<in> set idxs then r div int (length idxs) else 0)
             + (if k \<in> set (take (nat (r mod int (length idxs))) idxs) then 1 else 0))"
  using assms(3)
proof (induction "nat r" arbitrary: r js rule: less_induct)
  case less
  let ?n = "length idxs"
  have n: "0 < ?n" using assms(1) by simp
  show ?case
  proof (cases "1 \<le> r")
    case False
    then have "r = 0" using less.prems by simp
    then show ?thesis by (simp add: round_robin.simps)
  next
    case True
    let ?r' = "fst (round_robin_pass idxs r js)" and ?js1 = "snd (round_robin_pass idxs r js)"
    note pass = round_robin_pass_counts [OF assms(2) less.prems, of js]
    have unf: "round_robin idxs r js = round_robin idxs ?r' ?js1"
      using True by (subst round_robin.simps) simp
    show ?thesis
    proof (cases "int ?n \<le> r")
      case full: True
      have "min (nat r) ?n = ?n" using full by linarith
      then have r': "?r' = r - int ?n" using pass by simp
      have r0: "0 \<le> ?r'" using r' full by simp
      have lt: "nat ?r' < nat r" using r' n True by simp
      from less.hyps [OF lt r0, of ?js1] obtain js' where
        js': "round_robin idxs ?r' ?js1 = Some js'" "length js' = length ?js1"
          "\<forall>k < length ?js1. batch_size (js' ! k)
             = batch_size (?js1 ! k) + (if k \<in> set idxs then ?r' div int ?n else 0)
               + (if k \<in> set (take (nat (?r' mod int ?n)) idxs) then 1 else 0)"
        by blast
      have tk: "take (nat r) idxs = idxs" using full by simp
      have rr: "r = ?r' + int ?n" using r' by simp
      have "(?r' + int ?n) div int ?n = ?r' div int ?n + 1" using n by simp
      then have dv: "?r' div int ?n = r div int ?n - 1" using rr by simp
      have "(?r' + int ?n) mod int ?n = ?r' mod int ?n" by simp
      then have md: "?r' mod int ?n = r mod int ?n" using rr by simp
      have "batch_size (js' ! k)
           = batch_size (js ! k) + (if k \<in> set idxs then r div int ?n else 0)
             + (if k \<in> set (take (nat (r mod int ?n)) idxs) then 1 else 0)"
        if k: "k < length js" for k
        using js'(3) pass k unfolding tk dv md by (auto simp: length_round_robin_pass)
      then show ?thesis using js'(1,2) unf by (simp add: length_round_robin_pass)
    next
      case part: False
      have "min (nat r) ?n = nat r" using part by linarith
      then have r': "?r' = 0" using pass less.prems by simp
      have "round_robin idxs ?r' ?js1 = Some ?js1" unfolding r' by (simp add: round_robin.simps)
      moreover have "r div int ?n = 0" "r mod int ?n = r" using part less.prems by simp_all
      ultimately show ?thesis using pass unf by (simp add: length_round_robin_pass)
    qed
  qed
qed

section \<open>What the first loop leaves\<close>

lemma classify_body_cases:
  assumes "classify_body eta W T L p i (js, d, c) = Inr (js', d', c')"
  shows "(js' = js[i := (js ! i)\<lparr>batch_size := payload_batch_size p\<rparr>] \<and> d' = d)
       \<or> (js' = js[i := (js ! i)\<lparr>complementary := True, batch_size := 0\<rparr>]
            \<and> (d' = d \<or> d' = d + payload_batch_size p))"
  using assms by (auto split: sum.splits if_splits)

lemma classify_body_rt:
  assumes "classify_body eta W T L p i (js, d, c) = Inr (js', d', c')"
  shows "realtime_jobs W js' \<noteq> []"
proof -
  have rt: "realtime_jobs W js \<noteq> []"
  proof
    assume "realtime_jobs W js = []"
    then have "job_stall eta W js (worker (js ! i)) p = Inl IndexError" by (rule job_stall_Inl)
    then show False using assms by simp
  qed
  from fastest_realtime_job_Inr [OF rt] obtain f where
    f: "f \<in> set (realtime_jobs W js)"
       "\<forall>k \<in> set (realtime_jobs W js). ipm W js k \<le> ipm W js f" by blast
  then have ft: "f < length js" "is_realtime W (js ! f)" by (simp_all add: set_realtime_jobs)
  have "is_realtime W (js' ! f)" by (rule classify_body_top(1) [OF assms ft f(2)])
  moreover have "f < length js'" using classify_body_shape(1) [OF assms] ft by simp
  ultimately have "f \<in> set (realtime_jobs W js')" by (simp add: set_realtime_jobs)
  then show ?thesis by auto
qed

lemma classify_loop_Cons:
  assumes "classify_loop eta W T L p (i # is) js d c = Inr (js', d', c')"
  obtains j1 d1 c1 where "classify_body eta W T L p i (js, d, c) = Inr (j1, d1, c1)"
    and "classify_loop eta W T L p is j1 d1 c1 = Inr (js', d', c')"
proof -
  from assms obtain s1 where s1: "classify_body eta W T L p i (js, d, c) = Inr s1"
    "for_each (classify_body eta W T L p) is s1 = Inr (js', d', c')"
    by (auto simp: classify_loop_def split: sum.splits)
  obtain j1 d1 c1 where "s1 = (j1, d1, c1)" by (cases s1) auto
  with s1 that show thesis by (simp add: classify_loop_def)
qed

lemma classify_loop_length:
  assumes "classify_loop eta W T L p is js d c = Inr (js', d', c')"
  shows "length js' = length js"
proof -
  have "length (map worker js') = length (map worker js)"
    using classify_loop_workers [OF assms] by simp
  then show ?thesis by simp
qed

lemma classify_loop_rt:
  assumes "classify_loop eta W T L p is js d c = Inr (js', d', c')" and "is \<noteq> []"
  shows "realtime_jobs W js' \<noteq> []"
  using assms
proof (induction "is" arbitrary: js d c)
  case Nil
  then show ?case by simp
next
  case (Cons i "is")
  from classify_loop_Cons [OF Cons.prems(1)] obtain j1 d1 c1 where
    b: "classify_body eta W T L p i (js, d, c) = Inr (j1, d1, c1)" and
    l: "classify_loop eta W T L p is j1 d1 c1 = Inr (js', d', c')" by blast
  show ?case
  proof (cases "is = []")
    case True
    then have "js' = j1" using l by (simp add: classify_loop_def)
    then show ?thesis using classify_body_rt [OF b] by simp
  next
    case False
    then show ?thesis using Cons.IH [OF l] by simp
  qed
qed

text \<open>
  After the loop over distinct positions: a visited job that is not complementary holds
  the baseline, a visited job that the loop has made complementary holds 0 images, and
  a job that was not visited is as before.
\<close>

lemma classify_loop_visited:
  assumes "classify_loop eta W T L p is js d c = Inr (js', d', c')"
    and "distinct is" and "\<forall>i \<in> set is. i < length js"
  shows "(\<forall>k \<in> set is.
            (\<not> complementary (js' ! k) \<longrightarrow> batch_size (js' ! k) = payload_batch_size p)
          \<and> (complementary (js' ! k) \<longrightarrow> complementary (js ! k) \<or> batch_size (js' ! k) = 0))
       \<and> (\<forall>k < length js. k \<notin> set is \<longrightarrow> js' ! k = js ! k)"
  using assms
proof (induction "is" arbitrary: js d c)
  case Nil
  then show ?case by (simp add: classify_loop_def)
next
  case (Cons i "is")
  let ?B = "payload_batch_size p"
  from classify_loop_Cons [OF Cons.prems(1)] obtain j1 d1 c1 where
    b: "classify_body eta W T L p i (js, d, c) = Inr (j1, d1, c1)" and
    l: "classify_loop eta W T L p is j1 d1 c1 = Inr (js', d', c')" by blast
  note sh = classify_body_shape [OF b]
  have i: "i < length js" "i \<notin> set is" "distinct is" using Cons.prems by simp_all
  have r: "\<forall>i \<in> set is. i < length j1" using Cons.prems sh(1) by simp
  note ih = Cons.IH [OF l i(3) r]
  have un: "js' ! i = j1 ! i" using ih i sh(1) by simp
  have step: "(\<not> complementary (j1 ! i) \<longrightarrow> batch_size (j1 ! i) = ?B)
      \<and> (complementary (j1 ! i) \<longrightarrow> complementary (js ! i) \<or> batch_size (j1 ! i) = 0)"
    using classify_body_cases [OF b] i(1) by auto
  have v: "(\<not> complementary (js' ! k) \<longrightarrow> batch_size (js' ! k) = ?B)
          \<and> (complementary (js' ! k) \<longrightarrow> complementary (js ! k) \<or> batch_size (js' ! k) = 0)"
    if k: "k \<in> set (i # is)" for k
  proof (cases "k = i")
    case True
    then show ?thesis using un step by simp
  next
    case False
    then have ks: "k \<in> set is" using k by simp
    then have "k < length js" using Cons.prems(3) by simp
    then have "j1 ! k = js ! k" using sh(4) False by simp
    then show ?thesis using ih ks by auto
  qed
  have u: "js' ! k = js ! k" if "k < length js" "k \<notin> set (i # is)" for k
    using that ih sh(1,4) by simp
  from v u show ?case by blast
qed

text \<open>
  The images that the visited jobs hold, with the deferred ones, are at most the
  baseline for each visited job.
\<close>

lemma classify_loop_deferred:
  assumes "classify_loop eta W T L p is js d c = Inr (js', d', c')"
    and "distinct is" and "\<forall>i \<in> set is. i < length js" and "0 \<le> payload_batch_size p"
  shows "d \<le> d'
       \<and> sum_list (map (\<lambda>k. batch_size (js' ! k)) is) + d'
            \<le> d + payload_batch_size p * int (length is)"
  using assms(1-3)
proof (induction "is" arbitrary: js d c)
  case Nil
  then show ?case by (simp add: classify_loop_def)
next
  case (Cons i "is")
  let ?B = "payload_batch_size p"
  from classify_loop_Cons [OF Cons.prems(1)] obtain j1 d1 c1 where
    b: "classify_body eta W T L p i (js, d, c) = Inr (j1, d1, c1)" and
    l: "classify_loop eta W T L p is j1 d1 c1 = Inr (js', d', c')" by blast
  note sh = classify_body_shape [OF b]
  have i: "i < length js" "i \<notin> set is" "distinct is" using Cons.prems by simp_all
  have r: "\<forall>i \<in> set is. i < length j1" using Cons.prems sh(1) by simp
  note ih = Cons.IH [OF l i(3) r]
  have "js' ! i = j1 ! i"
    using classify_loop_visited [OF l i(3) r] i sh(1) by simp
  then have un: "batch_size (js' ! i) = batch_size (j1 ! i)" by simp
  have step: "d \<le> d1 \<and> batch_size (j1 ! i) + d1 \<le> d + ?B"
    using classify_body_cases [OF b] i(1) assms(4) by auto
  have "sum_list (map (\<lambda>k. batch_size (js' ! k)) (i # is)) + d'
          = batch_size (j1 ! i) + (sum_list (map (\<lambda>k. batch_size (js' ! k)) is) + d')"
    using un by simp
  also have "\<dots> \<le> batch_size (j1 ! i) + (d1 + ?B * int (length is))" using ih by simp
  also have "\<dots> \<le> d + ?B + ?B * int (length is)" using step by simp
  also have "\<dots> = d + ?B * int (length (i # is))" by (simp add: algebra_simps)
  finally have s: "sum_list (map (\<lambda>k. batch_size (js' ! k)) (i # is)) + d'
          \<le> d + ?B * int (length (i # is))" .
  have "d \<le> d'" using step ih by simp
  with s show ?case by blast
qed

lemma output_size_nth:
  "get_current_output_size js = sum_list (map (\<lambda>k. batch_size (js ! k)) [0..<length js])"
proof -
  have "map (\<lambda>k. batch_size (js ! k)) [0..<length js] = map batch_size (map ((!) js) [0..<length js])"
    by simp
  then show ?thesis unfolding get_current_output_size_def by (simp only: map_nth)
qed

section \<open>The remainder\<close>

lemma sorted_wrt_realtime_jobs: "sorted_wrt (<) (realtime_jobs W js)"
  by (simp add: realtime_jobs_def sorted_wrt_filter)

lemma take_sorted_down:
  assumes "sorted_wrt (<) xs" and "b \<in> set (take m xs)" and "a \<in> set xs" and "a < (b::nat)"
  shows "a \<in> set (take m xs)"
proof (rule ccontr)
  assume n: "a \<notin> set (take m xs)"
  have "set xs = set (take m xs) \<union> set (drop m xs)" by (metis append_take_drop_id set_append)
  with n assms(3) have d: "a \<in> set (drop m xs)" by simp
  have "sorted_wrt (<) (take m xs @ drop m xs)" using assms(1) by simp
  then have "\<forall>x \<in> set (take m xs). \<forall>y \<in> set (drop m xs). x < y"
    by (simp only: sorted_wrt_append) blast
  then have "b < a" using assms(2) d by blast
  then show False using assms(4) by simp
qed

lemma sort_key_equal_keys:
  assumes "\<forall>x \<in> set xs. k x = (c::int)"
  shows "sort_key k xs = xs"
proof -
  have "map k xs = replicate (length xs) c" using assms by (simp add: map_replicate_const [symmetric] cong: map_cong)
  then have "sorted (map k xs)" by simp
  then show ?thesis by (rule sort_key_id_if_sorted)
qed

text \<open>After the redistribution every real-time job holds the same number of images.\<close>

lemma redistribute_equal:
  assumes 1: "classify_loop eta W T L p [0..<length js] js 0 0 = Inr (js1, d, c)"
    and 2: "redistribute W d js1 = Inr (js2, ipj)"
  shows "\<exists>c0. \<forall>k \<in> set (realtime_jobs W js2). batch_size (js2 ! k) = c0"
proof -
  have l1: "length js1 = length js" by (rule classify_loop_length [OF 1])
  have v: "\<forall>k < length js1. \<not> complementary (js1 ! k) \<longrightarrow> batch_size (js1 ! k) = payload_batch_size p"
    using classify_loop_visited [OF 1] l1 by simp
  have s: "same_flags js1 js2" by (rule same_flags_redistribute [OF 2])
  have rt: "realtime_jobs W js2 = realtime_jobs W js1" by (rule same_flags_realtime_jobs [OF s])
  have b: "batch_size (js1 ! k) = payload_batch_size p" if "k \<in> set (realtime_jobs W js1)" for k
    using that v by (simp add: set_realtime_jobs is_realtime_def)
  show ?thesis
  proof (cases "d > 0")
    case False
    then have "js2 = js1" using 2 by (simp add: redistribute_def)
    then show ?thesis using b rt by auto
  next
    case True
    let ?n = "d div int (length (realtime_jobs W js1))"
    from True 2 have "js2 = fold (add_images ?n) (realtime_jobs W js1) js1"
      by (simp add: redistribute_def Let_def split: if_splits)
    then have "batch_size (js2 ! k) = payload_batch_size p + ?n"
      if "k \<in> set (realtime_jobs W js1)" for k
      using that b [OF that] count_fold_add_images [OF distinct_realtime_jobs, of k js1 ?n W js1]
      by (simp add: set_realtime_jobs)
    then show ?thesis using rt by auto
  qed
qed

lemma remainder_handling_balanced:
  assumes eq: "\<forall>k \<in> set (realtime_jobs W js). batch_size (js ! k) = c0"
  shows "(realtime_jobs W js \<noteq> [] \<longrightarrow> (\<exists>js'. remainder_handling W T js = Some js'))
       \<and> (\<forall>js'. remainder_handling W T js = Some js' \<longrightarrow> balanced W js')"
proof -
  let ?rt = "realtime_jobs W js" and ?r = "T - get_current_output_size js"
  have srt: "sort_key (\<lambda>i. batch_size (js ! i)) ?rt = ?rt"
    using eq by (intro sort_key_equal_keys [where c = c0]) simp
  have eqb: "balanced W js"
    unfolding balanced_def using eq by (auto simp: set_realtime_jobs)
  show ?thesis
  proof (cases "1 \<le> ?r")
    case False
    then have "remainder_handling W T js = Some js" by (simp add: remainder_handling_def)
    then show ?thesis using eqb by simp
  next
    case True
    then have rh: "remainder_handling W T js = round_robin ?rt ?r js"
      by (simp add: remainder_handling_def Let_def srt)
    show ?thesis
    proof (cases "?rt = []")
      case True
      then have "remainder_handling W T js = None"
        using rh \<open>1 \<le> ?r\<close> by (simp add: round_robin_empty)
      then show ?thesis using True by simp
    next
      case False
      have r0: "0 \<le> ?r" using True by simp
      from round_robin_total [OF False distinct_realtime_jobs r0, of js] obtain js' where
        js': "round_robin ?rt ?r js = Some js'" "length js' = length js"
          "\<forall>k < length js. batch_size (js' ! k)
             = batch_size (js ! k) + (if k \<in> set ?rt then ?r div int (length ?rt) else 0)
               + (if k \<in> set (take (nat (?r mod int (length ?rt))) ?rt) then 1 else 0)"
        by blast
      let ?q = "?r div int (length ?rt)" and ?m = "nat (?r mod int (length ?rt))"
      have s: "same_flags js js'" by (rule same_flags_round_robin [OF js'(1)])
      have "balanced W js'"
        unfolding balanced_def
      proof (intro allI impI)
        fix a b
        assume h: "a < b \<and> b < length js' \<and> is_realtime W (js' ! a) \<and> is_realtime W (js' ! b)"
        then have ab: "a < b" "b < length js" "a < length js" using js'(2) by simp_all
        have ra: "a \<in> set ?rt" and rb: "b \<in> set ?rt"
          using h ab same_flags_is_realtime [OF s] by (simp_all add: set_realtime_jobs)
        have ca: "batch_size (js' ! a) = c0 + ?q + (if a \<in> set (take ?m ?rt) then 1 else 0)"
          using js'(3) ab(3) ra eq by simp
        have cb: "batch_size (js' ! b) = c0 + ?q + (if b \<in> set (take ?m ?rt) then 1 else 0)"
          using js'(3) ab(2) rb eq by simp
        have "b \<in> set (take ?m ?rt) \<longrightarrow> a \<in> set (take ?m ?rt)"
          using take_sorted_down [OF sorted_wrt_realtime_jobs _ ra ab(1)] by blast
        then show "batch_size (js' ! b) \<le> batch_size (js' ! a)
            \<and> batch_size (js' ! a) \<le> batch_size (js' ! b) + 1"
          unfolding ca cb by auto
      qed
      then show ?thesis using rh js'(1) by simp
    qed
  qed
qed

text \<open>
  C5. After the remainder handling of \<^verbatim>\<open>optimize_jobs\<close> (which ends whenever there is a
  job at all), of two real-time jobs the earlier one in the job list, which follows the
  registration order of the nodes, holds as many images as the later one or one more.
\<close>

theorem remainder_balanced:
  assumes "classify_loop eta W T L p [0..<length js] js 0 0 = Inr (js1, d, c)"
    and "redistribute W d js1 = Inr (js2, ipj)"
  shows "(js \<noteq> [] \<longrightarrow> (\<exists>js3. remainder_handling W T js2 = Some js3))
       \<and> (\<forall>js3. remainder_handling W T js2 = Some js3 \<longrightarrow> balanced W js3)"
proof -
  from redistribute_equal [OF assms] obtain c0 where
    eq: "\<forall>k \<in> set (realtime_jobs W js2). batch_size (js2 ! k) = c0" by blast
  have "realtime_jobs W js2 \<noteq> []" if "js \<noteq> []"
  proof -
    have "[0..<length js] \<noteq> []" using that by simp
    from classify_loop_rt [OF assms(1) this] show ?thesis
      using same_flags_realtime_jobs [OF same_flags_redistribute [OF assms(2)], of W] by simp
  qed
  then show ?thesis using remainder_handling_balanced [OF eq, of T] by blast
qed

lemma scenario_classified':
  "classify_loop eta_linear (workers request3) 9 6 payload3 [0..<length (jobs request3)]
     (jobs request3) 0 0
     = Inr ([new_job 0 3 False, new_job 1 3 False, new_job 2 0 True], 3, 6)"
  by code_simp

lemma scenario_redistributed:
  "redistribute (workers request3) 3 [new_job 0 3 False, new_job 1 3 False, new_job 2 0 True]
     = Inr ([new_job 0 4 False, new_job 1 4 False, new_job 2 0 True], Some 1)"
  by code_simp

lemma scenario_remainder:
  "remainder_handling (workers request3) 9 [new_job 0 4 False, new_job 1 4 False, new_job 2 0 True]
     = Some [new_job 0 5 False, new_job 1 4 False, new_job 2 0 True]"
  by code_simp

theorem remainder_balanced_witness:
  "classify_loop eta_linear (workers request3) 9 6 payload3 [0..<length (jobs request3)]
     (jobs request3) 0 0
     = Inr ([new_job 0 3 False, new_job 1 3 False, new_job 2 0 True], 3, 6)
   \<and> redistribute (workers request3) 3 [new_job 0 3 False, new_job 1 3 False, new_job 2 0 True]
     = Inr ([new_job 0 4 False, new_job 1 4 False, new_job 2 0 True], Some 1)
   \<and> remainder_handling (workers request3) 9
        [new_job 0 4 False, new_job 1 4 False, new_job 2 0 True]
     = Some [new_job 0 5 False, new_job 1 4 False, new_job 2 0 True]
   \<and> balanced (workers request3) [new_job 0 5 False, new_job 1 4 False, new_job 2 0 True]"
  using remainder_balanced [OF scenario_classified' scenario_redistributed]
    scenario_classified' scenario_redistributed scenario_remainder
  by simp

section \<open>Sums of image counts\<close>

lemma output_size_add:
  assumes "length js' = length js"
    and "\<forall>k < length js. batch_size (js' ! k) = batch_size (js ! k) + f k"
  shows "get_current_output_size js' = get_current_output_size js + sum_list (map f [0..<length js])"
proof -
  have "map (\<lambda>k. batch_size (js' ! k)) [0..<length js]
          = map (\<lambda>k. batch_size (js ! k) + f k) [0..<length js]"
    by (rule map_cong) (use assms(2) in auto)
  moreover have "get_current_output_size js'
          = sum_list (map (\<lambda>k. batch_size (js' ! k)) [0..<length js])"
    using output_size_nth [of js'] by (simp only: assms(1))
  ultimately have "get_current_output_size js'
          = sum_list (map (\<lambda>k. batch_size (js ! k) + f k) [0..<length js])"
    by (simp only:)
  also have "\<dots> = get_current_output_size js + sum_list (map f [0..<length js])"
    by (simp add: sum_list_addf output_size_nth [of js])
  finally show ?thesis .
qed

lemma sum_list_indicator:
  assumes "distinct idxs" and "\<forall>i \<in> set idxs. i < n"
  shows "sum_list (map (\<lambda>k. if k \<in> set idxs then c else 0) [0..<n]) = c * int (length idxs)"
proof -
  have "sum_list (map (\<lambda>k. if k \<in> set idxs then c else 0) [0..<n])
          = (\<Sum>k \<in> {0..<n}. if k \<in> set idxs then c else (0::int))"
    by (simp add: interv_sum_list_conv_sum_set_nat)
  also have "\<dots> = (\<Sum>k \<in> {0..<n} \<inter> set idxs. c)"
    using sum.inter_restrict [of "{0..<n}" "\<lambda>_. c" "set idxs"] by simp
  also have "{0..<n} \<inter> set idxs = set idxs" using assms(2) by auto
  also have "(\<Sum>k \<in> set idxs. c) = c * int (card (set idxs))" by simp
  also have "card (set idxs) = length idxs" using assms(1) by (rule distinct_card)
  finally show ?thesis .
qed

lemma realtime_output_nth:
  "realtime_output js
     = sum_list (map (\<lambda>k. if complementary (js ! k) then 0 else batch_size (js ! k)) [0..<length js])"
proof -
  have "realtime_output js = sum_list (map (\<lambda>j. if complementary j then 0 else batch_size j) js)"
    unfolding realtime_output_def by (induction js) simp_all
  also have "map (\<lambda>j. if complementary j then 0 else batch_size j) js
      = map (\<lambda>j. if complementary j then 0 else batch_size j) (map ((!) js) [0..<length js])"
    by (simp only: map_nth)
  finally show ?thesis by (simp add: comp_def)
qed

lemma realtime_output_filter:
  assumes "\<forall>j \<in> set js. \<not> complementary j \<longrightarrow> 0 \<le> batch_size j"
  shows "realtime_output (filter (\<lambda>x. \<not> batch_size x < 1) js) = realtime_output js"
  using assms unfolding realtime_output_def by (induction js) auto

lemma realtime_output_prune:
  assumes "\<forall>j \<in> set js. \<not> complementary j \<longrightarrow> 0 \<le> batch_size j"
  shows "realtime_output (prune js) = realtime_output js"
proof (cases js)
  case Nil
  then show ?thesis by (simp add: prune_Nil)
next
  case (Cons j rest)
  have "realtime_output (filter (\<lambda>x. \<not> batch_size x < 1) rest) = realtime_output rest"
    using assms Cons by (intro realtime_output_filter) simp
  then show ?thesis using Cons by (simp add: prune_Cons realtime_output_def)
qed

section \<open>The redistribution and the remainder, in images\<close>

lemma redistribute_size:
  assumes "redistribute W d js = Inr (js', ipj)" and "0 \<le> d"
  shows "get_current_output_size js \<le> get_current_output_size js'
       \<and> get_current_output_size js' \<le> get_current_output_size js + d
       \<and> (\<forall>k < length js. k \<notin> set (realtime_jobs W js) \<longrightarrow> batch_size (js' ! k) = batch_size (js ! k))
       \<and> (\<forall>k < length js. batch_size (js ! k) \<le> batch_size (js' ! k))
       \<and> (ipj \<noteq> None \<longrightarrow> 0 < d)"
proof (cases "0 < d")
  case False
  then have "js' = js" "ipj = None" using assms by (simp_all add: redistribute_def)
  then show ?thesis using assms(2) by simp
next
  case True
  let ?rt = "realtime_jobs W js"
  let ?n = "d div int (length ?rt)"
  from True assms have rt: "?rt \<noteq> []" and js': "js' = fold (add_images ?n) ?rt js"
    by (simp_all add: redistribute_def Let_def split: if_splits)
  have len: "0 < int (length ?rt)" using rt by simp
  have n0: "0 \<le> ?n" using assms(2) len by (simp only: pos_imp_zdiv_nonneg_iff)
  have c: "\<forall>k < length js. batch_size (js' ! k) = batch_size (js ! k) + (if k \<in> set ?rt then ?n else 0)"
    using js' count_fold_add_images [OF distinct_realtime_jobs] by simp
  have l: "length js' = length js" using js' by (simp add: length_fold_add_images)
  have "get_current_output_size js' = get_current_output_size js + ?n * int (length ?rt)"
    using output_size_add [OF l c]
      sum_list_indicator [OF distinct_realtime_jobs, of W js "length js" ?n]
    by (simp add: set_realtime_jobs)
  moreover have "?n * int (length ?rt) \<le> d"
  proof -
    have "int (length ?rt) * ?n + d mod int (length ?rt) = d" by (rule mult_div_mod_eq)
    moreover have "0 \<le> d mod int (length ?rt)" using len by (rule pos_mod_sign)
    ultimately have "int (length ?rt) * ?n \<le> d" by linarith
    then show ?thesis by (simp only: mult.commute)
  qed
  moreover have "0 \<le> ?n * int (length ?rt)" using n0 by simp
  ultimately show ?thesis using c n0 True by auto
qed

lemma remainder_handling_size:
  assumes rt: "realtime_jobs W js \<noteq> []" and le: "get_current_output_size js \<le> T"
  shows "\<exists>js'. remainder_handling W T js = Some js' \<and> length js' = length js
       \<and> get_current_output_size js' = T
       \<and> (\<forall>k < length js. k \<notin> set (realtime_jobs W js) \<longrightarrow> batch_size (js' ! k) = batch_size (js ! k))
       \<and> (\<forall>k < length js. batch_size (js ! k) \<le> batch_size (js' ! k))"
proof (cases "1 \<le> T - get_current_output_size js")
  case False
  then have "remainder_handling W T js = Some js" "get_current_output_size js = T"
    using le by (simp_all add: remainder_handling_def)
  then show ?thesis by simp
next
  case True
  let ?r = "T - get_current_output_size js"
  let ?idxs = "sort_key (\<lambda>i. batch_size (js ! i)) (realtime_jobs W js)"
  let ?n = "length ?idxs"
  have ne: "?idxs \<noteq> []" using rt by (metis length_0_conv length_sort)
  have di: "distinct ?idxs" by (simp add: distinct_realtime_jobs)
  have st: "set ?idxs = set (realtime_jobs W js)" by simp
  have r0: "0 \<le> ?r" using True by simp
  have n: "0 < int ?n" using rt by simp
  from round_robin_total [OF ne di r0, of js] obtain js' where
    js': "round_robin ?idxs ?r js = Some js'" "length js' = length js"
      "\<forall>k < length js. batch_size (js' ! k)
         = batch_size (js ! k) + (if k \<in> set ?idxs then ?r div int ?n else 0)
           + (if k \<in> set (take (nat (?r mod int ?n)) ?idxs) then 1 else 0)"
    by blast
  let ?q = "?r div int ?n" and ?m = "nat (?r mod int ?n)"
  have rh: "remainder_handling W T js = Some js'"
    using True js'(1) by (simp add: remainder_handling_def Let_def)
  have rng: "\<forall>i \<in> set ?idxs. i < length js" by (simp add: set_realtime_jobs)
  have rngt: "\<forall>i \<in> set (take ?m ?idxs). i < length js"
    using rng by (auto dest: in_set_takeD)
  have m: "?m \<le> ?n"
  proof -
    have "?r mod int ?n < int ?n" using n by (rule pos_mod_bound)
    then show ?thesis by linarith
  qed
  have m0: "0 \<le> ?r mod int ?n" using n by (rule pos_mod_sign)
  have q0: "0 \<le> ?q" using r0 n by (simp only: pos_imp_zdiv_nonneg_iff)
  have "get_current_output_size js'
          = get_current_output_size js
            + sum_list (map (\<lambda>k. (if k \<in> set ?idxs then ?q else 0)
                 + (if k \<in> set (take ?m ?idxs) then 1 else 0)) [0..<length js])"
    using output_size_add [OF js'(2), of "\<lambda>k. (if k \<in> set ?idxs then ?q else 0)
                 + (if k \<in> set (take ?m ?idxs) then 1 else 0)"] js'(3)
    by (simp add: add.assoc)
  also have "sum_list (map (\<lambda>k. (if k \<in> set ?idxs then ?q else 0)
                 + (if k \<in> set (take ?m ?idxs) then 1 else 0)) [0..<length js])
         = sum_list (map (\<lambda>k. if k \<in> set ?idxs then ?q else 0) [0..<length js])
           + sum_list (map (\<lambda>k. if k \<in> set (take ?m ?idxs) then 1 else 0) [0..<length js])"
    by (rule sum_list_addf)
  also have "sum_list (map (\<lambda>k. if k \<in> set ?idxs then ?q else 0) [0..<length js]) = ?q * int ?n"
    by (rule sum_list_indicator [OF di rng])
  also have "sum_list (map (\<lambda>k. if k \<in> set (take ?m ?idxs) then 1 else 0) [0..<length js])
         = 1 * int (length (take ?m ?idxs))"
    by (rule sum_list_indicator [OF distinct_take [OF di] rngt])
  also have "int (length (take ?m ?idxs)) = ?r mod int ?n" using m m0 by simp
  also have "?q * int ?n + 1 * (?r mod int ?n) = ?r"
    by (simp add: mult.commute)
  finally have sz: "get_current_output_size js' = T" by simp
  have "batch_size (js' ! k) = batch_size (js ! k)"
    if "k < length js" "k \<notin> set (realtime_jobs W js)" for k
  proof -
    have "k \<notin> set (take ?m ?idxs)" using that(2) st by (auto dest: in_set_takeD)
    then show ?thesis using js'(3) that st by simp
  qed
  moreover have "batch_size (js ! k) \<le> batch_size (js' ! k)" if "k < length js" for k
    using js'(3) that q0 by simp
  ultimately show ?thesis using rh js'(2) sz by blast
qed

section \<open>Loops that do not raise\<close>

lemma classify_loop_progress:
  assumes rt: "realtime_jobs W js \<noteq> []"
    and known: "\<forall>k < length js. avg_ipm (W ! worker (js ! k)) \<noteq> None"
    and rng: "\<forall>i \<in> set is. i < length js"
  shows "\<exists>js' d' c'. classify_loop eta W T L p is js d c = Inr (js', d', c')"
proof -
  let ?I = "\<lambda>s :: Job list \<times> int \<times> int.
              realtime_jobs W (fst s) \<noteq> [] \<and> map worker (fst s) = map worker js"
  have "\<exists>s'. for_each (classify_body eta W T L p) is (js, d, c) = Inr s' \<and> ?I s'"
  proof (rule for_each_progress [where I = ?I])
    show "?I (js, d, c)" using rt by simp
  next
    fix i and s :: "Job list \<times> int \<times> int" assume i: "i \<in> set is" and I: "?I s"
    obtain j0 d0 c0 where s: "s = (j0, d0, c0)" by (cases s) auto
    have w: "map worker j0 = map worker js" and rt0: "realtime_jobs W j0 \<noteq> []"
      using I s by simp_all
    have il: "i < length js" using rng i by simp
    have "worker (j0 ! i) = worker (js ! i)" by (rule worker_same_workers [OF w il])
    then obtain a where a: "avg_ipm (W ! worker (j0 ! i)) = Some a" using known il by auto
    have "\<exists>lag. job_stall eta W j0 (worker (j0 ! i)) p = Inr lag"
      using a by (simp add: job_stall_eq [OF rt0])
    then obtain lag where lag: "job_stall eta W j0 (worker (j0 ! i)) p = Inr lag" by blast
    then obtain s' where s': "classify_body eta W T L p i (j0, d0, c0) = Inr s'"
      by (cases "lag < of_int L \<or> lag = 0") simp_all
    obtain j1 d1 c1 where s1: "s' = (j1, d1, c1)" by (cases s') auto
    have "realtime_jobs W j1 \<noteq> []" using classify_body_rt s' s1 by blast
    moreover have "map worker j1 = map worker js"
      using classify_body_shape(2) [of eta W T L p i j0 d0 c0 j1 d1 c1] s' s1 w by simp
    ultimately show "\<exists>s'. classify_body eta W T L p i s = Inr s' \<and> ?I s'"
      using s s' s1 by simp
  qed
  then obtain s' where "for_each (classify_body eta W T L p) is (js, d, c) = Inr s'" by blast
  then show ?thesis by (cases s') (auto simp: classify_loop_def)
qed

lemma backfill_loop_progress:
  assumes rt: "realtime_jobs W js \<noteq> []"
    and known: "\<forall>k < length js. \<exists>r. 0 < r \<and> avg_ipm (W ! worker (js ! k)) = Some r"
    and ipj: "ipj \<noteq> None \<longrightarrow> payload_batch_size p \<noteq> 0"
    and eta: "\<forall>r. 0 < r \<longrightarrow> eta r (p\<lparr>payload_batch_size := 1\<rparr>) \<noteq> 0"
    and rng: "\<forall>i \<in> set is. i < length js"
  shows "\<exists>js'. backfill_loop eta W p ipj is js = Inr js' \<and> same_flags js js'
           \<and> (\<forall>k < length js. \<not> complementary (js ! k) \<longrightarrow> js' ! k = js ! k)"
proof -
  let ?I = "\<lambda>s. same_flags js s \<and> (\<forall>k < length js. \<not> complementary (js ! k) \<longrightarrow> s ! k = js ! k)"
  have "\<exists>s'. for_each (backfill_body eta W p ipj) is js = Inr s' \<and> ?I s'"
  proof (rule for_each_progress [where I = ?I])
    show "?I js" by (simp add: same_flags_refl)
  next
    fix i s assume i: "i \<in> set is" and I: "?I s"
    then have sf: "same_flags js s" by simp
    have il: "i < length js" using rng i by simp
    note nth = same_flags_nth [OF sf]
    show "\<exists>s'. backfill_body eta W p ipj i s = Inr s' \<and> ?I s'"
    proof (cases "complementary (s ! i) = False")
      case True
      then show ?thesis using I by (simp add: backfill_body_def)
    next
      case False
      have rts: "realtime_jobs W s \<noteq> []" using rt same_flags_realtime_jobs [OF sf, of W] by simp
      from slowest_realtime_job_Inr [OF rts] obtain sl where
        sl: "slowest_realtime_job W s = Inr sl" "sl \<in> set (realtime_jobs W s)" by blast
      then have "sl < length js" using same_flags_length [OF sf] by (simp add: set_realtime_jobs)
      then obtain r1 where r1: "avg_ipm (W ! worker (s ! sl)) = Some r1"
        using known nth [of sl] by auto
      obtain r2 where r2: "0 < r2" "avg_ipm (W ! worker (s ! i)) = Some r2"
        using known nth [OF il] il by auto
      have e1: "batch_eta eta W (worker (s ! sl)) p = Inr (eta r1 p)"
        using r1 by (simp add: batch_eta_def)
      have e2: "batch_eta eta W (worker (s ! i)) (p\<lparr>payload_batch_size := 1\<rparr>)
                  = Inr (eta r2 (p\<lparr>payload_batch_size := 1\<rparr>))"
        using r2 by (simp add: batch_eta_def)
      have nz: "eta r2 (p\<lparr>payload_batch_size := 1\<rparr>) \<noteq> 0" using eta r2(1) by simp
      obtain slack where slack: "(case ipj of None \<Rightarrow> Inr (eta r1 p)
               | Some n \<Rightarrow> if payload_batch_size p = 0 then Inl ZeroDivisionError
                   else Inr (eta r1 p + (eta r1 p / of_int (payload_batch_size p)) * of_int n))
              = Inr slack"
        using ipj by (cases ipj) auto
      let ?s' = "s[i := (s ! i)\<lparr>batch_size := py_int (slack / eta r2 (p\<lparr>payload_batch_size := 1\<rparr>))\<rparr>]"
      have b: "backfill_body eta W p ipj i s = Inr ?s'"
        using False sl(1) e1 e2 nz slack by (simp add: backfill_body_def)
      have "same_flags js ?s'"
        by (rule same_flags_trans [OF sf same_flags_count_update])
      moreover have "?s' ! k = js ! k" if "k < length js" "\<not> complementary (js ! k)" for k
      proof -
        have "k \<noteq> i" using that False nth [OF il] by auto
        then show ?thesis using I that by simp
      qed
      ultimately show ?thesis using b by simp
    qed
  qed
  then show ?thesis by (simp add: backfill_loop_def)
qed

section \<open>Conservation\<close>

lemma backfill_final:
  "optimize_jobs eta_linear request2 payload5
     = Some (Inr (request2\<lparr>jobs := [new_job 0 10 False, new_job 1 1 True]\<rparr>))"
  by code_simp

lemma backfill_jobs: "update_world fleet2 10 = Inr request2"
  by code_simp

text \<open>
  C1, as stated, fails: with the master at 60 ipm and B at 6 ipm, 10 images and a
  baseline of 5, the master takes all 10 images and the complementary job of B is
  backfilled with 1 more, so that the surviving jobs hold 11 images.
\<close>

theorem conservation_counterexample:
  "update_world fleet2 10 = Inr request2
   \<and> total_batch_size request2 = 10
   \<and> optimize_jobs eta_linear request2 payload5
       = Some (Inr (request2\<lparr>jobs := [new_job 0 10 False, new_job 1 1 True]\<rparr>))
   \<and> get_current_output_size [new_job 0 10 False, new_job 1 1 True] = 11"
  using backfill_jobs backfill_final
  by (simp add: get_current_output_size_def new_job_def request2_def)

text \<open>
  C1, amended. For a job list that is not empty, whose jobs are not complementary and
  belong to benchmarked workers with a positive ipm, a baseline that is not negative
  and fits the total, and a prediction for one image that is not 0: \<^verbatim>\<open>optimize_jobs\<close>
  returns, and the images of the surviving jobs that are not complementary sum to the
  requested total.
\<close>

theorem realtime_conservation:
  assumes ne: "jobs w \<noteq> []"
    and ok: "\<forall>j \<in> set (jobs w). complementary j = False \<and> benchmarked (workers w ! worker j)
               \<and> (\<exists>r. 0 < r \<and> avg_ipm (workers w ! worker j) = Some r)"
    and B0: "0 \<le> payload_batch_size p"
    and fit: "int (length (jobs w)) * payload_batch_size p \<le> total_batch_size w"
    and eta: "\<forall>r. 0 < r \<longrightarrow> eta r (p\<lparr>payload_batch_size := 1\<rparr>) \<noteq> 0"
  shows "\<exists>w'. optimize_jobs eta w p = Some (Inr w')
           \<and> realtime_output (jobs w') = total_batch_size w"
proof -
  let ?W = "workers w" and ?T = "total_batch_size w" and ?L = "job_timeout w"
  let ?B = "payload_batch_size p" and ?js = "jobs w" and ?n = "length (jobs w)"
  have n0: "0 < ?n" using ne by simp
  have ok0: "complementary (?js ! k) = False \<and> benchmarked (?W ! worker (?js ! k))
               \<and> (\<exists>r. 0 < r \<and> avg_ipm (?W ! worker (?js ! k)) = Some r)" if "k < ?n" for k
    using ok that by simp
  have "is_realtime ?W (?js ! 0)" using ok0 [OF n0] by (auto simp: is_realtime_def)
  then have "0 \<in> set (realtime_jobs ?W ?js)" using n0 by (simp add: set_realtime_jobs)
  then have rt0: "realtime_jobs ?W ?js \<noteq> []" by auto
  have known0: "\<forall>k < ?n. avg_ipm (?W ! worker (?js ! k)) \<noteq> None" using ok0 by auto
  have rng: "\<forall>i \<in> set [0..<?n]. i < ?n" by simp
  from classify_loop_progress [OF rt0 known0 rng, of eta ?T ?L p 0 0] obtain js1 d c where
    1: "classify_loop eta ?W ?T ?L p [0..<?n] ?js 0 0 = Inr (js1, d, c)" by blast
  have l1: "length js1 = ?n" by (rule classify_loop_length [OF 1])
  have w1: "map worker js1 = map worker ?js" by (rule classify_loop_workers [OF 1])
  have vis: "(\<not> complementary (js1 ! k) \<longrightarrow> batch_size (js1 ! k) = ?B)
           \<and> (complementary (js1 ! k) \<longrightarrow> batch_size (js1 ! k) = 0)" if "k < ?n" for k
    using classify_loop_visited [OF 1 distinct_upt rng] ok0 [OF that] that by auto
  have def: "0 \<le> d" "get_current_output_size js1 + d \<le> ?B * int ?n"
    using classify_loop_deferred [OF 1 distinct_upt rng B0]
    by (simp_all add: output_size_nth [of js1] l1)
  have le1: "get_current_output_size js1 + d \<le> ?T" using def(2) fit by (simp add: mult.commute)
  have rt1: "realtime_jobs ?W js1 \<noteq> []"
    using classify_loop_rt [OF 1] n0 by simp
  have ok1: "benchmarked (?W ! worker (js1 ! k))
               \<and> (\<exists>r. 0 < r \<and> avg_ipm (?W ! worker (js1 ! k)) = Some r)" if "k < ?n" for k
    using ok0 [OF that] worker_same_workers [OF w1 that] by simp
  have rts1: "k \<in> set (realtime_jobs ?W js1) \<longleftrightarrow> k < ?n \<and> \<not> complementary (js1 ! k)" for k
    using ok1 [of k] l1 by (auto simp: set_realtime_jobs is_realtime_def)
  obtain js2 ipj where 2: "redistribute ?W d js1 = Inr (js2, ipj)"
    using rt1 by (cases "0 < d") (simp_all add: redistribute_def Let_def)
  note r2 = redistribute_size [OF 2 def(1)]
  have s12: "same_flags js1 js2" by (rule same_flags_redistribute [OF 2])
  have l2: "length js2 = ?n" using same_flags_length [OF s12] l1 by simp
  have rt2: "realtime_jobs ?W js2 = realtime_jobs ?W js1" by (rule same_flags_realtime_jobs [OF s12])
  have le2: "get_current_output_size js2 \<le> ?T" using r2 le1 by simp
  from remainder_handling_size [of ?W js2 ?T] rt1 rt2 le2 obtain js3 where
    3: "remainder_handling ?W ?T js2 = Some js3" and l3: "length js3 = length js2"
    and sz3: "get_current_output_size js3 = ?T"
    and un3: "\<forall>k < length js2. k \<notin> set (realtime_jobs ?W js2) \<longrightarrow> batch_size (js3 ! k) = batch_size (js2 ! k)"
    and mo3: "\<forall>k < length js2. batch_size (js2 ! k) \<le> batch_size (js3 ! k)"
    by auto
  have s23: "same_flags js2 js3" by (rule same_flags_remainder_handling [OF 3])
  have s13: "same_flags js1 js3" by (rule same_flags_trans [OF s12 s23])
  have c3: "complementary (js3 ! k) = complementary (js1 ! k)" if "k < ?n" for k
    using same_flags_nth [OF s13] that l1 by simp
  have z3: "batch_size (js3 ! k) = 0" if "k < ?n" "complementary (js3 ! k)" for k
  proof -
    have c: "complementary (js1 ! k)" using c3 that by simp
    then have "k \<notin> set (realtime_jobs ?W js1)" by (simp add: rts1)
    then have "batch_size (js3 ! k) = batch_size (js1 ! k)"
      using un3 r2 rt2 that(1) l1 l2 by simp
    then show ?thesis using vis [OF that(1)] c by simp
  qed
  have p3: "0 \<le> batch_size (js3 ! k)" if "k < ?n" for k
  proof -
    have "0 \<le> batch_size (js1 ! k)" using vis [OF that] B0 by (cases "complementary (js1 ! k)") simp_all
    moreover have "batch_size (js1 ! k) \<le> batch_size (js2 ! k)" using r2 that l1 by simp
    moreover have "batch_size (js2 ! k) \<le> batch_size (js3 ! k)" using mo3 that l2 by simp
    ultimately show ?thesis by simp
  qed
  have rt3: "realtime_jobs ?W js3 \<noteq> []" using rt1 same_flags_realtime_jobs [OF s13, of ?W] by simp
  have ok3: "\<forall>k < length js3. \<exists>r. 0 < r \<and> avg_ipm (?W ! worker (js3 ! k)) = Some r"
    using ok1 same_flags_nth [OF s13] l1 l2 l3 by simp
  have bz: "ipj \<noteq> None \<longrightarrow> ?B \<noteq> 0"
  proof (intro impI notI)
    assume "ipj \<noteq> None" and z: "?B = 0"
    then have d: "0 < d" using r2 by simp
    have "map (\<lambda>k. batch_size (js1 ! k)) [0..<length js1] = map (\<lambda>k. 0) [0..<length js1]"
      by (rule map_cong) (use vis z l1 in auto)
    then have "sum_list (map (\<lambda>k. batch_size (js1 ! k)) [0..<length js1])
                 = sum_list (map (\<lambda>k. 0::int) [0..<length js1])"
      by (simp only:)
    also have "\<dots> = 0" by simp
    finally have "get_current_output_size js1 = 0" by (simp only: output_size_nth [of js1])
    then show False using def(2) d z by simp
  qed
  have rng3: "\<forall>i \<in> set [0..<length js3]. i < length js3" by simp
  from backfill_loop_progress [of ?W js3 ipj p eta "[0..<length js3]", OF rt3 ok3 bz eta rng3]
  obtain js4 where
    4: "backfill_loop eta ?W p ipj [0..<length js3] js3 = Inr js4"
    and s34: "same_flags js3 js4"
    and un4: "\<forall>k < length js3. \<not> complementary (js3 ! k) \<longrightarrow> js4 ! k = js3 ! k"
    by blast
  have l4: "length js4 = ?n" using same_flags_length [OF s34] l3 l2 by simp
  have l3n: "length js3 = ?n" using l3 l2 by simp
  have c4: "complementary (js4 ! k) = complementary (js3 ! k)" if "k < ?n" for k
    using same_flags_nth [OF s34] that l3n by simp
  have "realtime_output js4
          = sum_list (map (\<lambda>k. if complementary (js4 ! k) then 0 else batch_size (js4 ! k)) [0..<?n])"
    by (simp add: realtime_output_nth l4)
  also have "map (\<lambda>k. if complementary (js4 ! k) then 0 else batch_size (js4 ! k)) [0..<?n]
          = map (\<lambda>k. batch_size (js3 ! k)) [0..<?n]"
    by (rule map_cong) (use c4 un4 z3 l3n in auto)
  also have "sum_list (map (\<lambda>k. batch_size (js3 ! k)) [0..<?n]) = get_current_output_size js3"
    by (simp add: output_size_nth [of js3] l3n)
  finally have out4: "realtime_output js4 = ?T" using sz3 by simp
  have pos4: "\<forall>j \<in> set js4. \<not> complementary j \<longrightarrow> 0 \<le> batch_size j"
  proof (intro ballI impI)
    fix j assume "j \<in> set js4" and nc: "\<not> complementary j"
    then obtain k where k: "k < ?n" "js4 ! k = j" using l4 by (auto simp: in_set_conv_nth)
    then have "\<not> complementary (js3 ! k)" using c4 nc by auto
    then have "js4 ! k = js3 ! k" using un4 k(1) l3n by simp
    then show "0 \<le> batch_size j" using p3 [OF k(1)] k(2) by simp
  qed
  have "distribute eta w p = Some (Inr js4)" by (simp add: distribute_def 1 2 3 4)
  then have "optimize_jobs eta w p = Some (Inr (w\<lparr>jobs := prune js4\<rparr>))"
    by (simp add: optimize_jobs_def)
  moreover have "realtime_output (prune js4) = ?T"
    using realtime_output_prune [OF pos4] out4 by simp
  ultimately show ?thesis by simp
qed

theorem realtime_conservation_witness:
  "jobs request2 \<noteq> []
   \<and> 0 \<le> payload_batch_size payload5
   \<and> int (length (jobs request2)) * payload_batch_size payload5 \<le> total_batch_size request2
   \<and> (\<exists>w'. optimize_jobs eta_linear request2 payload5 = Some (Inr w')
         \<and> realtime_output (jobs w') = total_batch_size request2)"
proof -
  have a: "jobs request2 \<noteq> []" by (simp add: request2_def)
  have b: "\<forall>j \<in> set (jobs request2). complementary j = False
         \<and> benchmarked (workers request2 ! worker j)
         \<and> (\<exists>r. 0 < r \<and> avg_ipm (workers request2 ! worker j) = Some r)"
    by (simp add: request2_def fleet2_def fleet_def node_def new_job_def)
  have c: "0 \<le> payload_batch_size payload5" by (simp add: payload5_def)
  have d: "int (length (jobs request2)) * payload_batch_size payload5 \<le> total_batch_size request2"
    by (simp add: request2_def payload5_def)
  have e: "\<forall>r. 0 < r \<longrightarrow> eta_linear r (payload5\<lparr>payload_batch_size := 1\<rparr>) \<noteq> 0"
    by (simp add: eta_linear_def)
  from realtime_conservation [of request2 payload5 eta_linear, OF a b c d e] a c d
  show ?thesis by blast
qed

section \<open>Two runs\<close>

lemma nth_beyond_same:
  "length xs = length ys \<Longrightarrow> length xs \<le> n \<Longrightarrow> xs ! n = ys ! n"
proof (induction xs ys arbitrary: n rule: list_induct2)
  case Nil
  show ?case by simp
next
  case (Cons x xs y ys)
  then obtain m where "n = Suc m" by (cases n) auto
  then show ?case using Cons by simp
qed

lemma same_node_nth:
  assumes "list_all2 same_node W1 W2"
  shows "same_node (W1 ! r) (W2 ! r)"
proof (cases "r < length W1")
  case True
  then show ?thesis using assms by (simp add: list_all2_nthD)
next
  case False
  have "length W1 = length W2" using assms by (rule list_all2_lengthD)
  then have "W1 ! r = W2 ! r" using False by (intro nth_beyond_same) simp_all
  then show ?thesis by (simp add: same_node_def)
qed

lemma get_workers_loop_same:
  assumes "list_all2 same_node W1 W2"
  shows "fst (get_workers_loop thin i W1) = fst (get_workers_loop thin i W2)
       \<and> list_all2 same_node (snd (get_workers_loop thin i W1)) (snd (get_workers_loop thin i W2))"
  using assms
proof (induction W1 W2 arbitrary: i rule: list_all2_induct)
  case Nil
  show ?case by simp
next
  case (Cons a W1 b W2)
  obtain f1 r1 where 1: "get_workers_loop thin (Suc i) W1 = (f1, r1)" by (cases "get_workers_loop thin (Suc i) W1") auto
  obtain f2 r2 where 2: "get_workers_loop thin (Suc i) W2 = (f2, r2)" by (cases "get_workers_loop thin (Suc i) W2") auto
  have ih: "f1 = f2" "list_all2 same_node r1 r2" using Cons.IH [of "Suc i"] 1 2 by simp_all
  have up: "same_node (a\<lparr>avg_ipm := Some 1\<rparr>) (b\<lparr>avg_ipm := Some 1\<rparr>)"
    using Cons.hyps(1) by (simp add: same_node_def)
  have eq: "avg_ipm a = avg_ipm b" "master a = master b" "state a = state b"
    using Cons.hyps(1) by (simp_all add: same_node_def)
  show ?case using ih up eq Cons.hyps(1) by (simp add: 1 2)
qed

lemma get_workers_same:
  assumes "list_all2 same_node (workers w1) (workers w2)"
    and "thin_client_mode w1 = thin_client_mode w2"
  shows "fst (get_workers w1) = fst (get_workers w2)"
    and "list_all2 same_node (workers (snd (get_workers w1))) (workers (snd (get_workers w2)))"
    and "snd (get_workers w1) = w1\<lparr>workers := workers (snd (get_workers w1))\<rparr>"
    and "snd (get_workers w2) = w2\<lparr>workers := workers (snd (get_workers w2))\<rparr>"
  using get_workers_loop_same [OF assms(1), of "thin_client_mode w1" 0] assms(2)
  by (simp_all add: get_workers_def split_beta)

lemma update_world_eq:
  "update_world w t =
     (let r1 = get_workers_loop (thin_client_mode w) 0 (workers w);
          r2 = get_workers_loop (thin_client_mode w) 0 (snd r1)
      in if length (fst r1) = 0 then Inl ZeroDivisionError
         else Inr (w\<lparr>total_batch_size := t,
                     jobs := map (\<lambda>r. \<lparr>worker = r, batch_size = t div int (length (fst r1)),
                                         complementary = False\<rparr>) (fst r2),
                     workers := snd r2\<rparr>))"
  by (simp add: update_world_def update_jobs_def default_batch_size_def size_world_def
      get_workers_def split_beta Let_def)

lemma update_world_same:
  assumes "list_all2 same_node (workers w1) (workers w2)"
    and "thin_client_mode w1 = thin_client_mode w2"
  shows "map_sum id jobs (update_world w1 t) = map_sum id jobs (update_world w2 t)"
    and "update_world w1 t = Inr v1 \<Longrightarrow> update_world w2 t = Inr v2 \<Longrightarrow>
           jobs v1 = jobs v2 \<and> list_all2 same_node (workers v1) (workers v2)
           \<and> total_batch_size v1 = total_batch_size v2
           \<and> job_timeout v1 = job_timeout w1 \<and> job_timeout v2 = job_timeout w2"
proof -
  let ?thin = "thin_client_mode w1"
  let ?a1 = "get_workers_loop ?thin 0 (workers w1)" and ?a2 = "get_workers_loop ?thin 0 (workers w2)"
  let ?b1 = "get_workers_loop ?thin 0 (snd ?a1)" and ?b2 = "get_workers_loop ?thin 0 (snd ?a2)"
  have a: "fst ?a1 = fst ?a2" "list_all2 same_node (snd ?a1) (snd ?a2)"
    using get_workers_loop_same [OF assms(1), of ?thin 0] by simp_all
  have b: "fst ?b1 = fst ?b2" "list_all2 same_node (snd ?b1) (snd ?b2)"
    using get_workers_loop_same [OF a(2), of ?thin 0] by simp_all
  show "map_sum id jobs (update_world w1 t) = map_sum id jobs (update_world w2 t)"
    using a(1) b(1) assms(2) by (simp add: update_world_eq Let_def)
  show "jobs v1 = jobs v2 \<and> list_all2 same_node (workers v1) (workers v2)
           \<and> total_batch_size v1 = total_batch_size v2
           \<and> job_timeout v1 = job_timeout w1 \<and> job_timeout v2 = job_timeout w2"
    if "update_world w1 t = Inr v1" "update_world w2 t = Inr v2"
    using that a b assms(2) by (auto simp: update_world_eq Let_def split: if_splits)
qed

text \<open>The algorithm reads of a worker its ipm and whether it is benchmarked.\<close>

lemma is_realtime_same:
  assumes "\<forall>r. avg_ipm (W1 ! r) = avg_ipm (W2 ! r) \<and> benchmarked (W1 ! r) = benchmarked (W2 ! r)"
  shows "is_realtime W1 = is_realtime W2"
  using assms by (simp add: fun_eq_iff is_realtime_def)

lemma realtime_jobs_same:
  assumes "\<forall>r. avg_ipm (W1 ! r) = avg_ipm (W2 ! r) \<and> benchmarked (W1 ! r) = benchmarked (W2 ! r)"
  shows "realtime_jobs W1 = realtime_jobs W2"
  by (simp add: fun_eq_iff realtime_jobs_def is_realtime_same [OF assms])

lemma ipm_same:
  assumes "\<forall>r. avg_ipm (W1 ! r) = avg_ipm (W2 ! r) \<and> benchmarked (W1 ! r) = benchmarked (W2 ! r)"
  shows "ipm W1 = ipm W2"
  using assms by (simp add: fun_eq_iff ipm_def)

lemma batch_eta_same:
  assumes "\<forall>r. avg_ipm (W1 ! r) = avg_ipm (W2 ! r) \<and> benchmarked (W1 ! r) = benchmarked (W2 ! r)"
  shows "batch_eta eta W1 = batch_eta eta W2"
  using assms by (simp add: fun_eq_iff batch_eta_def)

lemma job_stall_same:
  assumes "\<forall>r. avg_ipm (W1 ! r) = avg_ipm (W2 ! r) \<and> benchmarked (W1 ! r) = benchmarked (W2 ! r)"
  shows "job_stall eta W1 = job_stall eta W2"
  unfolding fun_eq_iff job_stall_def fastest_realtime_job_def
    realtime_jobs_same [OF assms] ipm_same [OF assms] batch_eta_same [OF assms]
  by (intro allI refl)

lemma classify_body_same:
  assumes "\<forall>r. avg_ipm (W1 ! r) = avg_ipm (W2 ! r) \<and> benchmarked (W1 ! r) = benchmarked (W2 ! r)"
  shows "classify_body eta W1 T L p = classify_body eta W2 T L p"
proof (intro ext)
  fix i and s :: "Job list \<times> int \<times> int"
  obtain js d c where s: "s = (js, d, c)" by (cases s) auto
  show "classify_body eta W1 T L p i s = classify_body eta W2 T L p i s"
    unfolding s by (simp add: job_stall_same [OF assms])
qed

lemma backfill_body_same:
  assumes "\<forall>r. avg_ipm (W1 ! r) = avg_ipm (W2 ! r) \<and> benchmarked (W1 ! r) = benchmarked (W2 ! r)"
  shows "backfill_body eta W1 p ipj = backfill_body eta W2 p ipj"
  unfolding fun_eq_iff backfill_body_def slowest_realtime_job_def
    realtime_jobs_same [OF assms] ipm_same [OF assms] batch_eta_same [OF assms]
  by (intro allI refl)

lemma distribute_same:
  assumes "\<forall>r. avg_ipm (workers w1 ! r) = avg_ipm (workers w2 ! r)
              \<and> benchmarked (workers w1 ! r) = benchmarked (workers w2 ! r)"
    and "jobs w1 = jobs w2" and "total_batch_size w1 = total_batch_size w2"
    and "job_timeout w1 = job_timeout w2"
  shows "distribute eta w1 p = distribute eta w2 p"
  unfolding distribute_def classify_loop_def backfill_loop_def redistribute_def
      remainder_handling_def classify_body_same [OF assms(1)] backfill_body_same [OF assms(1)]
      realtime_jobs_same [OF assms(1)] assms(2-4)
  by (rule refl)

lemma optimize_jobs_jobs:
  "map_option (map_sum id jobs) (optimize_jobs eta w p)
     = map_option (map_sum id prune) (distribute eta w p)"
  by (simp add: optimize_jobs_def split: option.splits sum.splits)

lemma remote_jobs: "update_world fleet_remote 6 = Inr request_remote"
  by code_simp

lemma remote_stale_jobs: "update_world fleet_remote_stale 6 = Inr request_remote_stale"
  by code_simp

lemma remote_final:
  "optimize_jobs eta_linear request_remote payload3
     = Some (Inr (request_remote\<lparr>jobs := [new_job 0 0 True, new_job 1 6 False]\<rparr>))"
  by code_simp

lemma remote_stale_final:
  "optimize_jobs eta_linear request_remote_stale payload3
     = Some (Inr (request_remote_stale\<lparr>jobs := [new_job 0 3 False, new_job 1 3 False]\<rparr>))"
  by code_simp

lemma remote_same:
  "map avg_ipm (workers fleet_remote) = map avg_ipm (workers fleet_remote_stale)
   \<and> map state (workers fleet_remote) = map state (workers fleet_remote_stale)
   \<and> map master (workers fleet_remote) = map master (workers fleet_remote_stale)
   \<and> thin_client_mode fleet_remote = thin_client_mode fleet_remote_stale
   \<and> job_timeout fleet_remote = job_timeout fleet_remote_stale"
  by code_simp

text \<open>
  C9, as stated, fails: two fleets with the same ipm values, liveness states, master
  flags, mode and stall tolerance, the same total of 6 and the same payload, get the
  same initial jobs, and end with different jobs, because the fast node A is marked as
  benchmarked in one and not in the other: the master complementary with 0 images and
  A with 6 in the first, 3 images each in the second.
\<close>

theorem stale_benchmark_counterexample:
  "map avg_ipm (workers fleet_remote) = map avg_ipm (workers fleet_remote_stale)
   \<and> map state (workers fleet_remote) = map state (workers fleet_remote_stale)
   \<and> map master (workers fleet_remote) = map master (workers fleet_remote_stale)
   \<and> thin_client_mode fleet_remote = thin_client_mode fleet_remote_stale
   \<and> job_timeout fleet_remote = job_timeout fleet_remote_stale
   \<and> update_world fleet_remote 6 = Inr request_remote
   \<and> update_world fleet_remote_stale 6 = Inr request_remote_stale
   \<and> jobs request_remote = jobs request_remote_stale
   \<and> optimize_jobs eta_linear request_remote payload3
       = Some (Inr (request_remote\<lparr>jobs := [new_job 0 0 True, new_job 1 6 False]\<rparr>))
   \<and> optimize_jobs eta_linear request_remote_stale payload3
       = Some (Inr (request_remote_stale\<lparr>jobs := [new_job 0 3 False, new_job 1 3 False]\<rparr>))"
  using remote_same remote_jobs remote_stale_jobs remote_final remote_stale_final
  by (simp add: request_remote_def request_remote_stale_def)

text \<open>
  C9, amended. Two fleets whose nodes agree, in order, on ipm, benchmarked flag, liveness state
  and master flag, with the same thin-client mode and stall tolerance, given the same
  total and the same payload: the initial jobs are the same, and \<^verbatim>\<open>optimize_jobs\<close> has the
  same outcome in both, with the same final jobs (workers, image counts and
  complementary flags, in the same order).
\<close>

theorem distribution_deterministic:
  assumes "list_all2 same_node (workers w1) (workers w2)"
    and "thin_client_mode w1 = thin_client_mode w2"
    and "job_timeout w1 = job_timeout w2"
  shows "map_sum id jobs (update_world w1 t) = map_sum id jobs (update_world w2 t)
       \<and> (\<forall>v1 v2. update_world w1 t = Inr v1 \<and> update_world w2 t = Inr v2 \<longrightarrow>
            map_option (map_sum id jobs) (optimize_jobs eta v1 p)
              = map_option (map_sum id jobs) (optimize_jobs eta v2 p))"
proof -
  have "map_option (map_sum id jobs) (optimize_jobs eta v1 p)
              = map_option (map_sum id jobs) (optimize_jobs eta v2 p)"
    if u: "update_world w1 t = Inr v1" "update_world w2 t = Inr v2" for v1 v2
  proof -
    note s = update_world_same(2) [OF assms(1,2) u]
    have "\<forall>r. avg_ipm (workers v1 ! r) = avg_ipm (workers v2 ! r)
              \<and> benchmarked (workers v1 ! r) = benchmarked (workers v2 ! r)"
      using same_node_nth [of "workers v1" "workers v2"] s by (simp add: same_node_def)
    then have "distribute eta v1 p = distribute eta v2 p"
      using s assms(3) by (intro distribute_same) simp_all
    then show ?thesis by (simp only: optimize_jobs_jobs)
  qed
  then show ?thesis using update_world_same(1) [OF assms(1,2)] by blast
qed

lemma renamed_same: "list_all2 same_node (workers fleet3) (workers fleet3_renamed)"
  by (simp add: fleet3_def fleet3_renamed_def fleet_def node_def same_node_def)

lemma renamed_jobs: "update_world fleet3_renamed 9 = Inr request3_renamed"
  by code_simp

theorem distribution_deterministic_witness:
  "list_all2 same_node (workers fleet3) (workers fleet3_renamed)
   \<and> thin_client_mode fleet3 = thin_client_mode fleet3_renamed
   \<and> job_timeout fleet3 = job_timeout fleet3_renamed
   \<and> update_world fleet3 9 = Inr request3
   \<and> update_world fleet3_renamed 9 = Inr request3_renamed
   \<and> map_option (map_sum id jobs) (optimize_jobs eta_linear request3_renamed payload3)
       = Some (Inr [new_job 0 5 False, new_job 1 4 False])"
proof -
  have b: "thin_client_mode fleet3 = thin_client_mode fleet3_renamed"
    by (simp add: fleet3_def fleet3_renamed_def fleet_def)
  have c: "job_timeout fleet3 = job_timeout fleet3_renamed"
    by (simp add: fleet3_def fleet3_renamed_def fleet_def)
  from distribution_deterministic [OF renamed_same b c, of 9 eta_linear payload3]
  have "map_option (map_sum id jobs) (optimize_jobs eta_linear request3 payload3)
          = map_option (map_sum id jobs) (optimize_jobs eta_linear request3_renamed payload3)"
    using scenario_jobs renamed_jobs by blast
  then show ?thesis
    using renamed_same b c scenario_jobs renamed_jobs scenario_final by simp
qed

section \<open>When the method does not return\<close>











end
